theory Spec2Isabelle
  imports Complex_Main "HOL-Library.Sublist"
begin

section \<open>Python primitives shared by the scripts\<close>

text \<open>
  Python floats are modelled as reals and Python ints as \<open>int\<close> or \<open>nat\<close>; strings are
  \<open>char list\<close>. The built-in \<open>round\<close> rounds halves to the even neighbour, \<open>x in s\<close> on
  strings is the contiguous-substring test, \<open>str.lower\<close> maps the ASCII capitals.
\<close>

definition py_round :: "real \<Rightarrow> int" where
  "py_round x =
     (let f = \<lfloor>x\<rfloor>; d = x - of_int f
      in if d < 1 / 2 then f else if 1 / 2 < d then f + 1 else if even f then f else f + 1)"

definition round2 :: "real \<Rightarrow> real" where
  "round2 x = of_int (py_round (x * 100)) / 100"

definition digit_char :: "nat \<Rightarrow> char" where
  "digit_char d = ''0123456789'' ! d"

fun str_nat :: "nat \<Rightarrow> string" where
  "str_nat n = (if n < 10 then [digit_char n] else str_nat (n div 10) @ [digit_char (n mod 10)])"

declare str_nat.simps [simp del]

definition format_1f :: "real \<Rightarrow> string" where
  "format_1f x =
     (let t = nat (py_round (\<bar>x\<bar> * 10))
      in (if x < 0 then ''-'' else '''') @ str_nat (t div 10) @ ''.'' @ [digit_char (t mod 10)])"

definition lower_char :: "char \<Rightarrow> char" where
  "lower_char c =
     (case map_of (zip ''ABCDEFGHIJKLMNOPQRSTUVWXYZ'' ''abcdefghijklmnopqrstuvwxyz'') c of
        Some l \<Rightarrow> l
      | None \<Rightarrow> c)"

definition lower :: "string \<Rightarrow> string" where
  "lower s = map lower_char s"

definition str_in :: "string \<Rightarrow> string \<Rightarrow> bool" where
  "str_in needle s = sublist needle s"


section \<open>Index analyzer (15_indexing_performance.py)\<close>

text \<open>
  The improvement computed in \<open>test_index_effectiveness\<close> from the two averaged times, and
  \<open>_generate_index_recommendation\<close>. The query type and the two scan dictionaries are
  parameters the source never reads.
\<close>

definition performance_improvement :: "real \<Rightarrow> real \<Rightarrow> real" where
  "performance_improvement time_with time_without =
     (if time_with > 0 \<and> time_without > 0 then time_without / time_with else 1)"

definition generate_index_recommendation :: "string \<Rightarrow> real \<Rightarrow> 'd \<Rightarrow> 'd \<Rightarrow> string" where
  "generate_index_recommendation query_type improvement scan_with scan_without =
     (if improvement > 5 then
        ''Excellent optimization ('' @ format_1f improvement
          @ ''x improvement). Keep current data organization.''
      else if improvement > 2 then
        ''Good optimization ('' @ format_1f improvement
          @ ''x improvement). Consider adding more specific filters.''
      else if improvement > 1 then
        ''Minor optimization ('' @ format_1f improvement
          @ ''x improvement). Review query patterns.''
      else ''No significant improvement. Consider restructuring data or queries.'')"


section \<open>Security analyzer (26_security_analysis.py)\<close>

text \<open>
  A feature is a Python dict with string keys whose values are strings or booleans; it is kept
  as an association list in the order written. \<open>d.get(k, "")\<close> and \<open>d[k]\<close> are lookups, the
  second raising \<open>KeyError\<close> on a missing key, and \<open>.lower()\<close> on a boolean raises
  \<open>AttributeError\<close>.
\<close>

datatype py_error = KeyError | AttributeError | IndexError | ValueError | ZeroDivisionError

datatype pyval = PStr string | PBool bool

type_synonym pydict = "(string \<times> pyval) list"

definition bind_err :: "'e + 'a \<Rightarrow> ('a \<Rightarrow> 'e + 'b) \<Rightarrow> 'e + 'b" where
  "bind_err m f = (case m of Inl e \<Rightarrow> Inl e | Inr x \<Rightarrow> f x)"

record framework =
  fw_name :: string
  requirements :: "string list"

definition security_frameworks :: "(string \<times> framework) list" where
  "security_frameworks =
     [(''hipaa'', \<lparr>fw_name = ''HIPAA'', requirements =
         [''access_controls'', ''audit_trails'', ''data_encryption'', ''authentication'',
          ''authorization'']\<rparr>),
      (''gdpr'', \<lparr>fw_name = ''GDPR'', requirements =
         [''data_protection'', ''consent_management'', ''right_to_erasure'',
          ''data_portability'', ''privacy_by_design'']\<rparr>),
      (''iso_27001'', \<lparr>fw_name = ''ISO 27001'', requirements =
         [''risk_assessment'', ''security_policies'', ''access_control'', ''cryptography'',
          ''physical_security'']\<rparr>)]"

definition mk_feature :: "string \<Rightarrow> string \<Rightarrow> string \<Rightarrow> string \<Rightarrow> bool \<Rightarrow> bool \<Rightarrow> pydict" where
  "mk_feature f i s d h g =
     [(''feature'', PStr f), (''implementation'', PStr i), (''strength'', PStr s),
      (''description'', PStr d), (''hipaa_compliant'', PBool h), (''gdpr_compliant'', PBool g)]"

definition pg_features :: "pydict list" where
  "pg_features =
     [mk_feature ''Row Level Security (RLS)'' ''Native'' ''High''
        ''Fine-grained access control at row level'' True True,
      mk_feature ''SSL/TLS Encryption'' ''Native'' ''High'' ''Encrypted connections'' True True,
      mk_feature ''Column Encryption'' ''pgcrypto extension'' ''Medium''
        ''Column-level encryption support'' True True,
      mk_feature ''Audit Logging'' ''pgaudit extension'' ''High''
        ''Comprehensive audit trail'' True True,
      mk_feature ''Role-Based Access Control'' ''Native'' ''High''
        ''Granular permissions system'' True True]"

definition influx_features :: "pydict list" where
  "influx_features =
     [mk_feature ''Token-Based Authentication'' ''Native'' ''High''
        ''API tokens for authentication'' True True,
      mk_feature ''TLS/SSL Encryption'' ''Native'' ''High'' ''Encrypted communications'' True True,
      mk_feature ''User Management'' ''Native'' ''Medium''
        ''Basic user and permission system'' True False,
      mk_feature ''Audit Logs'' ''Enterprise Only'' ''Low''
        ''Limited in open source version'' False False,
      mk_feature ''Data Retention Policies'' ''Native'' ''High''
        ''Automatic data expiration'' True True]"

definition mongo_features :: "pydict list" where
  "mongo_features =
     [mk_feature ''Role-Based Access Control'' ''Native'' ''High''
        ''Fine-grained role permissions'' True True,
      mk_feature ''Field-Level Encryption'' ''Enterprise Only'' ''High''
        ''Client-side field encryption'' True True,
      mk_feature ''Audit Logging'' ''Enterprise Only'' ''Medium''
        ''Comprehensive audit trail'' True True,
      mk_feature ''TLS/SSL Encryption'' ''Native'' ''High'' ''Encrypted connections'' True True,
      mk_feature ''LDAP Integration'' ''Enterprise Only'' ''Medium''
        ''Enterprise directory integration'' True True]"

text \<open>\<open>feature.get(key, "").lower()\<close>\<close>

definition get_lower :: "pydict \<Rightarrow> string \<Rightarrow> py_error + string" where
  "get_lower feature key =
     (case map_of feature key of
        None \<Rightarrow> Inr []
      | Some (PStr s) \<Rightarrow> Inr (lower s)
      | Some (PBool b) \<Rightarrow> Inl AttributeError)"

text \<open>
  The condition \<open>req in description.lower() or req in feature.lower()\<close>; \<open>or\<close> does not
  evaluate its right operand once the left one holds.
\<close>

definition supports :: "string \<Rightarrow> pydict \<Rightarrow> py_error + bool" where
  "supports req feature =
     bind_err (get_lower feature ''description'') (\<lambda>d.
       if str_in req d then Inr True
       else bind_err (get_lower feature ''feature'') (\<lambda>n. Inr (str_in req n)))"

text \<open>\<open>any(... for feature in features)\<close> stops at the first feature that supports \<open>req\<close>.\<close>

fun feature_support :: "string \<Rightarrow> pydict list \<Rightarrow> py_error + bool" where
  "feature_support req [] = Inr False"
| "feature_support req (f # fs) =
     bind_err (supports req f) (\<lambda>b. if b then Inr True else feature_support req fs)"

text \<open>The comprehension \<open>[f["feature"] for f in features if ...]\<close>.\<close>

fun supporting_features :: "string \<Rightarrow> pydict list \<Rightarrow> py_error + pyval list" where
  "supporting_features req [] = Inr []"
| "supporting_features req (f # fs) =
     bind_err (supports req f) (\<lambda>b.
       if b then
         (case map_of f ''feature'' of
            None \<Rightarrow> Inl KeyError
          | Some v \<Rightarrow> bind_err (supporting_features req fs) (\<lambda>vs. Inr (v # vs)))
       else supporting_features req fs)"

datatype detail_extra = Features "pyval list" | Notes string

record compliance_detail =
  requirement :: string
  status :: string
  extra :: detail_extra

record compliance_entry =
  framework :: string
  score :: real
  entry_status :: string
  details :: "compliance_detail list"

definition get_compliance_status :: "real \<Rightarrow> string" where
  "get_compliance_status sc =
     (if sc \<ge> 90 then ''Fully Compliant''
      else if sc \<ge> 70 then ''Mostly Compliant''
      else if sc \<ge> 50 then ''Partially Compliant''
      else ''Non-Compliant'')"

text \<open>
  The loop over the requirements of one framework, carrying \<open>score\<close> and
  \<open>compliance_details\<close>.
\<close>

fun assess_requirements ::
  "pydict list \<Rightarrow> string \<Rightarrow> string list \<Rightarrow> nat \<Rightarrow> compliance_detail list
     \<Rightarrow> py_error + (nat \<times> compliance_detail list)" where
  "assess_requirements features database [] sc ds = Inr (sc, ds)"
| "assess_requirements features database (req # reqs) sc ds =
     bind_err (feature_support req features) (\<lambda>sup.
       if sup then
         bind_err (supporting_features req features) (\<lambda>fs.
           assess_requirements features database reqs (sc + 1)
             (ds @ [\<lparr>requirement = req, status = ''Compliant'', extra = Features fs\<rparr>]))
       else
         assess_requirements features database reqs sc
           (ds @ [\<lparr>requirement = req, status = ''Non-Compliant'',
                   extra = Notes (''No native '' @ database @ '' feature found'')\<rparr>]))"

definition assess_framework :: "pydict list \<Rightarrow> string \<Rightarrow> framework \<Rightarrow> py_error + compliance_entry" where
  "assess_framework features database fw =
     (let max_score = length (requirements fw)
      in bind_err (assess_requirements features database (requirements fw) 0 []) (\<lambda>(sc, ds).
           let compliance_score =
                 (if max_score > 0 then (real sc / real max_score) * 100 else 0)
           in Inr \<lparr>framework = fw_name fw, score = round2 compliance_score,
                   entry_status = get_compliance_status compliance_score, details = ds\<rparr>))"

text \<open>
  \<open>_assess_compliance\<close>: the loop over \<open>self.security_frameworks.items()\<close>, here the
  argument \<open>frameworks\<close>; the result dict is listed in insertion order.
\<close>

fun assess_compliance_loop ::
  "(string \<times> framework) list \<Rightarrow> pydict list \<Rightarrow> string
     \<Rightarrow> py_error + (string \<times> compliance_entry) list" where
  "assess_compliance_loop [] features database = Inr []"
| "assess_compliance_loop ((k, fw) # fws) features database =
     bind_err (assess_framework features database fw) (\<lambda>e.
       bind_err (assess_compliance_loop fws features database) (\<lambda>es. Inr ((k, e) # es)))"

definition assess_compliance :: "pydict list \<Rightarrow> string \<Rightarrow> py_error + (string \<times> compliance_entry) list" where
  "assess_compliance features database =
     assess_compliance_loop security_frameworks features database"


text \<open>
  The reading of the compliance check used to state its correctness: a requirement is matched
  by a feature list when its name is a substring of the lowercased description or of the
  lowercased feature name of some entry. A well-formed feature has a string under
  \<open>"feature"\<close> and, if it has a description at all, a string under \<open>"description"\<close>.
\<close>

definition text_of :: "pydict \<Rightarrow> string \<Rightarrow> string" where
  "text_of feature key = (case map_of feature key of Some (PStr s) \<Rightarrow> s | _ \<Rightarrow> [])"

definition spec_feature_matches :: "string \<Rightarrow> pydict \<Rightarrow> bool" where
  "spec_feature_matches req feature \<longleftrightarrow>
     sublist req (lower (text_of feature ''description''))
       \<or> sublist req (lower (text_of feature ''feature''))"

definition spec_requirement_matched :: "string \<Rightarrow> pydict list \<Rightarrow> bool" where
  "spec_requirement_matched req features \<longleftrightarrow> list_ex (spec_feature_matches req) features"

definition spec_matched_count :: "string list \<Rightarrow> pydict list \<Rightarrow> nat" where
  "spec_matched_count reqs features =
     length (filter (\<lambda>req. spec_requirement_matched req features) reqs)"

definition well_formed_feature :: "pydict \<Rightarrow> bool" where
  "well_formed_feature feature \<longleftrightarrow>
     (case map_of feature ''feature'' of Some (PStr s) \<Rightarrow> True | _ \<Rightarrow> False)
       \<and> (case map_of feature ''description'' of Some (PBool b) \<Rightarrow> False | _ \<Rightarrow> True)"


section \<open>Results collector (24_results_collector.py)\<close>

text \<open>
  The comparison dict of \<open>generate_comparison_table\<close>: one list per column, indexed by the
  position of the database. \<open>any(values)\<close> holds when some value is nonzero; \<open>max(values)\<close>
  is only reached behind it, so on a non-empty list.
\<close>

record comparison =
  database :: "string list"
  ingestion_rate :: "real list"
  query_latency :: "real list"
  storage_size :: "real list"
  index_efficiency :: "real list"
  security_score :: "real list"
  total_score :: "real list"

definition py_any :: "real list \<Rightarrow> bool" where
  "py_any values = list_ex (\<lambda>v. v \<noteq> 0) values"

definition normalize_higher :: "real list \<Rightarrow> real list" where
  "normalize_higher values =
     (if py_any values then
        (let max_val = Max (set values)
         in if max_val > 0 then map (\<lambda>v. v / max_val * 100) values else values)
      else values)"

definition normalize_lower :: "real list \<Rightarrow> real list" where
  "normalize_lower values =
     (if py_any values then
        (let max_val = Max (set values)
         in if max_val > 0 then map (\<lambda>v. (1 - v / max_val) * 100) values else values)
      else values)"

text \<open>
  One pass of the final loop: the weighted total of row \<open>i\<close>, stored rounded in
  \<open>total_score[i]\<close>. A column shorter than the database list raises \<open>IndexError\<close>.
\<close>

definition score_row :: "comparison \<Rightarrow> nat \<Rightarrow> py_error + comparison" where
  "score_row c i =
     (if i < length (ingestion_rate c) \<and> i < length (query_latency c)
         \<and> i < length (storage_size c) \<and> i < length (index_efficiency c)
         \<and> i < length (security_score c) \<and> i < length (total_score c)
      then
        (let total = 0 + ingestion_rate c ! i * 0.25 + query_latency c ! i * 0.25
               + storage_size c ! i * 0.20 + index_efficiency c ! i * 0.20
               + security_score c ! i * 0.10
         in Inr (c\<lparr>total_score := (total_score c)[i := round2 total]\<rparr>))
      else Inl IndexError)"

fun score_rows :: "comparison \<Rightarrow> nat list \<Rightarrow> py_error + comparison" where
  "score_rows c [] = Inr c"
| "score_rows c (i # is) = bind_err (score_row c i) (\<lambda>c'. score_rows c' is)"

definition normalize_and_score :: "comparison \<Rightarrow> py_error + comparison" where
  "normalize_and_score comparison =
     (let c1 = comparison\<lparr>ingestion_rate := normalize_higher (ingestion_rate comparison)\<rparr>;
          c2 = c1\<lparr>index_efficiency := normalize_higher (index_efficiency c1)\<rparr>;
          c3 = c2\<lparr>query_latency := normalize_lower (query_latency c2)\<rparr>;
          c4 = c3\<lparr>storage_size := normalize_lower (storage_size c3)\<rparr>
      in score_rows c4 [0..<length (database c4)])"

text \<open>
  \<open>generate_comparison_table\<close> up to the call of \<open>_normalize_and_score\<close>. The argument is
  \<open>metrics.get("ingestion_performance", {})\<close>: per database, a dict of named numbers.
\<close>

definition get_or_zero :: "(string \<times> real) list \<Rightarrow> string \<Rightarrow> real" where
  "get_or_zero d key = (case map_of d key of None \<Rightarrow> 0 | Some v \<Rightarrow> v)"

definition initial_comparison :: "(string \<times> (string \<times> real) list) list \<Rightarrow> comparison" where
  "initial_comparison ingestion =
     (let r0 = [0, 0, 0];
          r1 = (case map_of ingestion ''postgresql'' of
                  None \<Rightarrow> r0 | Some d \<Rightarrow> r0[0 := get_or_zero d ''avg_insert_rate'']);
          r2 = (case map_of ingestion ''influxdb'' of
                  None \<Rightarrow> r1 | Some d \<Rightarrow> r1[1 := get_or_zero d ''points_per_second'']);
          r3 = (case map_of ingestion ''mongodb'' of
                  None \<Rightarrow> r2 | Some d \<Rightarrow> r2[2 := get_or_zero d ''insert_rate''])
      in \<lparr>database = [''PostgreSQL'', ''InfluxDB'', ''MongoDB''],
          ingestion_rate = r3, query_latency = [0, 0, 0], storage_size = [0, 0, 0],
          index_efficiency = [0, 0, 0], security_score = [0, 0, 0], total_score = [0, 0, 0]\<rparr>)"

definition generate_comparison_table ::
  "(string \<times> (string \<times> real) list) list \<Rightarrow> py_error + comparison" where
  "generate_comparison_table ingestion = normalize_and_score (initial_comparison ingestion)"

text \<open>
  \<open>str\<close> of a total. \<open>round(total, 2)\<close> is a multiple of 0.01, and Python prints such a float
  of magnitude below \<open>10^16\<close> in fixed notation with the fewest decimals that identify it:
  one decimal when the hundredths digit is 0, two otherwise. The reals have no negative zero.
\<close>

definition float_str :: "real \<Rightarrow> string" where
  "float_str x =
     (let k = py_round (x * 100); a = nat \<bar>k\<bar>
      in (if k < 0 then ''-'' else '''') @ str_nat (a div 100) @ ''.''
           @ (if a mod 10 = 0 then [digit_char (a div 10 mod 10)]
              else [digit_char (a div 10 mod 10), digit_char (a mod 10)]))"

text \<open>
  \<open>Series.idxmax\<close> on the default index: the position of the first maximum; it raises
  \<open>ValueError\<close> on an empty column.
\<close>

definition idxmax :: "real list \<Rightarrow> py_error + nat" where
  "idxmax xs =
     (if xs = [] then Inl ValueError
      else Inr (length (takeWhile (\<lambda>v. v \<noteq> Max (set xs)) xs)))"

text \<open>
  The winner analysis of \<open>generate_summary_report\<close>, which \<open>run\<close> calls right after
  \<open>generate_comparison_table\<close>. The argument is \<open>self.results.get("comparison_table")\<close>, the
  records of the table, from which the frame is built again; without it nothing is written
  here. The winner is the row at \<open>idxmax\<close> of the totals, and two lines are written for it.
  The trophy sign is given by its UTF-8 bytes, the encoding of the report file.
\<close>

definition trophy :: string where
  "trophy = [CHR 0xF0, CHR 0x9F, CHR 0x8F, CHR 0x86]"

definition total_score_line :: "string \<Rightarrow> string" where
  "total_score_line shown = ''   Total Score: '' @ shown @ ''/100'' @ [CHR 0x0A, CHR 0x0A]"

definition winner_lines :: "comparison option \<Rightarrow> py_error + string list" where
  "winner_lines comparison_table =
     (case comparison_table of
        None \<Rightarrow> Inr []
      | Some df \<Rightarrow>
          bind_err (idxmax (total_score df)) (\<lambda>w.
            Inr [trophy @ '' Best Overall Performance: '' @ database df ! w @ [CHR 0x0A],
                 total_score_line (float_str (total_score df ! w))]))"

text \<open>Conditions on a comparison used to state the bounds of its totals.\<close>

definition columns_aligned :: "comparison \<Rightarrow> bool" where
  "columns_aligned c \<longleftrightarrow>
     length (ingestion_rate c) = length (database c)
       \<and> length (query_latency c) = length (database c)
       \<and> length (storage_size c) = length (database c)
       \<and> length (index_efficiency c) = length (database c)
       \<and> length (security_score c) = length (database c)
       \<and> length (total_score c) = length (database c)"

definition nonnegative_metrics :: "comparison \<Rightarrow> bool" where
  "nonnegative_metrics c \<longleftrightarrow>
     list_all (\<lambda>v. 0 \<le> v) (ingestion_rate c) \<and> list_all (\<lambda>v. 0 \<le> v) (query_latency c)
       \<and> list_all (\<lambda>v. 0 \<le> v) (storage_size c) \<and> list_all (\<lambda>v. 0 \<le> v) (index_efficiency c)
       \<and> list_all (\<lambda>v. 0 \<le> v) (security_score c)"

definition totals_in_range :: "comparison \<Rightarrow> bool" where
  "totals_in_range c \<longleftrightarrow> list_all (\<lambda>t. 0 \<le> t \<and> t \<le> 100) (total_score c)"


text \<open>The weighted total of row \<open>i\<close>, as the final loop of \<open>_normalize_and_score\<close> forms it.\<close>

definition weighted :: "comparison \<Rightarrow> nat \<Rightarrow> real" where
  "weighted c i = 0.25 * ingestion_rate c ! i + 0.25 * query_latency c ! i
     + 0.20 * storage_size c ! i + 0.20 * index_efficiency c ! i + 0.10 * security_score c ! i"


section \<open>Data importer (10_data_import.py)\<close>

text \<open>
  The batch loop of \<open>HealthIoTDataImporter.import_data\<close>. The client is an oracle: the
  outcome of the \<open>k\<close>-th call of \<open>write_api.write\<close> made during the import. An exception
  other than \<open>InfluxDBError\<close> is not caught by the loop and leaves \<open>import_data\<close>. The
  state carries the two counters of the source, the number of write calls made so far and
  the arguments of the calls of \<open>time.sleep\<close>, in order; printing and the clock are left out.
\<close>

datatype write_outcome = WriteOk | RaisesInfluxDBError | RaisesOther py_error

record import_state =
  calls :: nat
  imported_points :: nat
  failed_batches :: nat
  sleeps :: "real list"

text \<open>\<open>range(max_retries)\<close>, empty when \<open>max_retries\<close> is not positive.\<close>

definition py_range :: "int \<Rightarrow> nat list" where
  "py_range n = [0..<nat n]"

text \<open>
  The loop \<open>for attempt in range(max_retries)\<close> on a batch of \<open>n\<close> points, from the
  attempts still to make.
\<close>

fun write_attempts ::
  "(nat \<Rightarrow> write_outcome) \<Rightarrow> int \<Rightarrow> nat \<Rightarrow> nat list \<Rightarrow> import_state
     \<Rightarrow> py_error + import_state" where
  "write_attempts write max_retries n [] st = Inr st"
| "write_attempts write max_retries n (attempt # rest) st =
     (case write (calls st) of
        WriteOk \<Rightarrow>
          Inr (st\<lparr>calls := calls st + 1, imported_points := imported_points st + n\<rparr>)
      | RaisesInfluxDBError \<Rightarrow>
          (if int attempt < max_retries - 1 then
             write_attempts write max_retries n rest
               (st\<lparr>calls := calls st + 1, sleeps := sleeps st @ [2 ^ attempt]\<rparr>)
           else
             write_attempts write max_retries n rest
               (st\<lparr>calls := calls st + 1, failed_batches := failed_batches st + 1\<rparr>))
      | RaisesOther e \<Rightarrow> Inl e)"

definition write_batch ::
  "(nat \<Rightarrow> write_outcome) \<Rightarrow> int \<Rightarrow> 'p list \<Rightarrow> import_state \<Rightarrow> py_error + import_state" where
  "write_batch write max_retries batch st =
     write_attempts write max_retries (length batch) (py_range max_retries) st"

text \<open>The body of the outer loop for each batch in turn, with the pause after each batch.\<close>

fun import_batches ::
  "(nat \<Rightarrow> write_outcome) \<Rightarrow> int \<Rightarrow> 'p list list \<Rightarrow> import_state
     \<Rightarrow> py_error + import_state" where
  "import_batches write max_retries [] st = Inr st"
| "import_batches write max_retries (batch # batches) st =
     bind_err (write_batch write max_retries batch st) (\<lambda>st'.
       import_batches write max_retries batches (st'\<lparr>sleeps := sleeps st' @ [1 / 10]\<rparr>))"

text \<open>
  The slices \<open>points[i : i + batch_size]\<close> for \<open>i in range(0, total_points, batch_size)\<close>;
  \<open>range\<close> raises \<open>ValueError\<close> on step 0 and is empty on a negative step.
\<close>

definition batches_of :: "'p list \<Rightarrow> int \<Rightarrow> py_error + 'p list list" where
  "batches_of points batch_size =
     (if batch_size = 0 then Inl ValueError
      else if batch_size < 0 then Inr []
      else let bs = nat batch_size
           in Inr (map (\<lambda>k. take bs (drop (k * bs) points))
                     [0..<(length points + bs - 1) div bs]))"

text \<open>
  \<open>import_data\<close> from the parsed points on: no result dict when there are no points,
  otherwise the batch loop and, in async mode, the final pause. The result is the total number
  of points with the final state.
\<close>

definition import_data ::
  "(nat \<Rightarrow> write_outcome) \<Rightarrow> 'p list \<Rightarrow> int \<Rightarrow> string \<Rightarrow> int
     \<Rightarrow> py_error + (nat \<times> import_state) option" where
  "import_data write points batch_size write_mode max_retries =
     (if points = [] then Inr None
      else
        bind_err (batches_of points batch_size) (\<lambda>batches.
        bind_err (import_batches write max_retries batches
                    \<lparr>calls = 0, imported_points = 0, failed_batches = 0, sleeps = []\<rparr>) (\<lambda>st.
          let st' = (if write_mode = ''async'' then st\<lparr>sleeps := sleeps st @ [5]\<rparr> else st)
          in Inr (Some (length points, st')))))"


text \<open>
  The specification's account of the batch loop, written from its words for comparison with
  the loop above. \<open>first_success\<close> is the number of the first attempt that succeeds among the \<open>m\<close>
  attempts made from call \<open>c\<close> on, if there is one. \<open>claimed_batch\<close> is the state after a
  batch: a success after \<open>j\<close> failed attempts has slept \<open>2 ^ k\<close> seconds after each of them
  and adds the length of the batch to \<open>imported_points\<close>; a batch whose attempts all fail
  has slept after each attempt but the last and adds 1 to \<open>failed_batches\<close>. In both cases
  the pause of 0.1 seconds follows, and \<open>claimed_import\<close> goes on with the next batch.
\<close>

fun first_success :: "(nat \<Rightarrow> write_outcome) \<Rightarrow> nat \<Rightarrow> nat \<Rightarrow> nat option" where
  "first_success write c 0 = None"
| "first_success write c (Suc m) =
     (if write c = WriteOk then Some 0 else map_option Suc (first_success write (Suc c) m))"

definition claimed_batch ::
  "(nat \<Rightarrow> write_outcome) \<Rightarrow> int \<Rightarrow> 'p list \<Rightarrow> import_state \<Rightarrow> import_state" where
  "claimed_batch write max_retries batch st =
     (case first_success write (calls st) (nat max_retries) of
        Some j \<Rightarrow>
          st\<lparr>calls := calls st + j + 1,
             sleeps := sleeps st @ map (\<lambda>k. 2 ^ k) [0..<j] @ [1 / 10],
             imported_points := imported_points st + length batch\<rparr>
      | None \<Rightarrow>
          st\<lparr>calls := calls st + nat max_retries,
             sleeps := sleeps st @ map (\<lambda>k. 2 ^ k) [0..<nat max_retries - 1] @ [1 / 10],
             failed_batches := failed_batches st + (if 0 < max_retries then 1 else 0)\<rparr>)"

fun claimed_import ::
  "(nat \<Rightarrow> write_outcome) \<Rightarrow> int \<Rightarrow> 'p list list \<Rightarrow> import_state \<Rightarrow> import_state" where
  "claimed_import write max_retries [] st = st"
| "claimed_import write max_retries (batch # batches) st =
     claimed_import write max_retries batches (claimed_batch write max_retries batch st)"

text \<open>The counters at the start of an import.\<close>

definition initial_state :: import_state where
  "initial_state = \<lparr>calls = 0, imported_points = 0, failed_batches = 0, sleeps = []\<rparr>"


section \<open>Query performance tester (12_query_performance.py)\<close>

text \<open>
  The client is an oracle: what the \<open>k\<close>-th call of \<open>query_api().query\<close> does with the given
  query text, either returning after a measured time with a number of records or raising an
  exception with a message. The call counter is the only state; pauses and printing are left
  out.
\<close>

datatype query_outcome = QueryOk real nat | QueryRaises string

type_synonym query_client = "string \<Rightarrow> nat \<Rightarrow> query_outcome"

text \<open>The loop of \<open>execute_query\<close> from the attempts still to make.\<close>

fun execute_attempts ::
  "query_client \<Rightarrow> string \<Rightarrow> int \<Rightarrow> nat list \<Rightarrow> nat
     \<Rightarrow> (real \<times> nat \<times> string option) \<times> nat" where
  "execute_attempts client query max_retries [] c = ((0, 0, Some ''Max retries exceeded''), c)"
| "execute_attempts client query max_retries (attempt # rest) c =
     (case client query c of
        QueryOk execution_time result_count \<Rightarrow> ((execution_time, result_count, None), c + 1)
      | QueryRaises msg \<Rightarrow>
          (if int attempt < max_retries - 1
           then execute_attempts client query max_retries rest (c + 1)
           else ((0, 0, Some msg), c + 1)))"

definition execute_query ::
  "query_client \<Rightarrow> string \<Rightarrow> int \<Rightarrow> nat \<Rightarrow> (real \<times> nat \<times> string option) \<times> nat" where
  "execute_query client query max_retries c =
     execute_attempts client query max_retries (py_range max_retries) c"

text \<open>The test \<open>if error:\<close> on an optional string: \<open>None\<close> and the empty string are false.\<close>

definition truthy :: "string option \<Rightarrow> bool" where
  "truthy e = (case e of None \<Rightarrow> False | Some s \<Rightarrow> s \<noteq> [])"

record query_def =
  qd_name :: string
  qd_type :: string
  qd_description :: string
  qd_query :: string

record QueryResult =
  query_name :: string
  query_type :: string
  execution_times :: "real list"
  result_counts :: "nat list"
  avg_time :: real
  min_time :: real
  max_time :: real
  std_dev :: real
  throughput :: real
  success_rate :: real
  query_text :: string

text \<open>The warmup loop: each run is executed with the default three retries and discarded.\<close>

fun warmup_runs :: "query_client \<Rightarrow> string \<Rightarrow> nat list \<Rightarrow> nat \<Rightarrow> nat" where
  "warmup_runs client query [] c = c"
| "warmup_runs client query (i # is) c =
     warmup_runs client query is (snd (execute_query client query 3 c))"

text \<open>
  The measured loop, carrying \<open>execution_times\<close>, \<open>result_counts\<close> and \<open>errors\<close>.
\<close>

fun test_runs ::
  "query_client \<Rightarrow> string \<Rightarrow> nat list \<Rightarrow> real list \<times> nat list \<times> string list \<Rightarrow> nat
     \<Rightarrow> (real list \<times> nat list \<times> string list) \<times> nat" where
  "test_runs client query [] acc c = (acc, c)"
| "test_runs client query (i # is) (ts, ns, es) c =
     (case execute_query client query 3 c of
        ((exec_time, result_count, error), c') \<Rightarrow>
          if truthy error
          then test_runs client query is (ts, ns, es @ [the error]) c'
          else test_runs client query is (ts @ [exec_time], ns @ [result_count], es) c')"

text \<open>
  \<open>statistics.mean\<close> and \<open>statistics.stdev\<close> (the sample standard deviation); the source
  calls the first on non-empty data only and the second on at least two values.
\<close>

definition mean :: "real list \<Rightarrow> real" where
  "mean xs = sum_list xs / real (length xs)"

definition stdev :: "real list \<Rightarrow> real" where
  "stdev xs = sqrt (sum_list (map (\<lambda>x. (x - mean xs)\<^sup>2) xs) / real (length xs - 1))"

text \<open>The body of the loop over the query definitions, for one definition.\<close>

definition run_query_test ::
  "query_client \<Rightarrow> query_def \<Rightarrow> int \<Rightarrow> int \<Rightarrow> nat \<Rightarrow> QueryResult option \<times> nat" where
  "run_query_test client qd iterations warmup_iterations c =
     (let c1 = warmup_runs client (qd_query qd) (py_range warmup_iterations) c
      in case test_runs client (qd_query qd) (py_range iterations) ([], [], []) c1 of
           ((ts, ns, es), c2) \<Rightarrow>
             if ts \<noteq> [] then
               (let avg = mean ts;
                    avg_results = mean (map real ns)
                in (Some \<lparr>query_name = qd_name qd, query_type = qd_type qd,
                      execution_times = ts, result_counts = ns,
                      avg_time = avg, min_time = Min (set ts), max_time = Max (set ts),
                      std_dev = (if length ts > 1 then stdev ts else 0),
                      throughput = (if avg > 0 then avg_results / avg else 0),
                      success_rate = real (length ts) / real_of_int iterations,
                      query_text = qd_query qd\<rparr>, c2))
             else (None, c2))"

fun run_performance_test ::
  "query_client \<Rightarrow> query_def list \<Rightarrow> int \<Rightarrow> int \<Rightarrow> nat \<Rightarrow> QueryResult list" where
  "run_performance_test client [] iterations warmup_iterations c = []"
| "run_performance_test client (qd # qds) iterations warmup_iterations c =
     (case run_query_test client qd iterations warmup_iterations c of
        (res, c') \<Rightarrow>
          (case res of None \<Rightarrow> [] | Some r \<Rightarrow> [r])
            @ run_performance_test client qds iterations warmup_iterations c')"

text \<open>
  The results of \<open>n\<close> consecutive calls of \<open>execute_query\<close> starting at call \<open>c\<close>, used to name
  the measured runs of a test.
\<close>

fun measured_results ::
  "query_client \<Rightarrow> string \<Rightarrow> nat \<Rightarrow> nat \<Rightarrow> (real \<times> nat \<times> string option) list" where
  "measured_results client query 0 c = []"
| "measured_results client query (Suc n) c =
     (case execute_query client query 3 c of
        (res, c') \<Rightarrow> res # measured_results client query n c')"

definition successful :: "(real \<times> nat \<times> string option) list \<Rightarrow> (real \<times> nat \<times> string option) list" where
  "successful runs = filter (\<lambda>(t, n, e). \<not> truthy e) runs"


text \<open>
  A tester holds the connection parameters (from which the client is built), the bucket and the
  last results. \<open>define_test_queries\<close> builds the eight query dicts, filling the bucket name
  into the Flux text.
\<close>

record tester =
  tester_url :: string
  tester_token :: string
  tester_org :: string
  tester_bucket :: string
  tester_results :: "QueryResult list"

definition define_test_queries :: "tester \<Rightarrow> query_def list" where
  "define_test_queries self =
     [\<lparr>qd_name = ''simple_recent_data'', qd_type = ''simple_select'',
        qd_description = ''Select recent data with limit'',
        qd_query = ''
                    from(bucket: \"'' @ tester_bucket self @ ''\")
                      |> range(start: -1h)
                      |> filter(fn: (r) => r._measurement == \"patient_vitals\")
                      |> filter(fn: (r) => r._field == \"vital_value\")
                      |> limit(n: 1000)
                ''\<rparr>,
      \<lparr>qd_name = ''time_range_aggregation'', qd_type = ''aggregation'',
        qd_description = ''Hourly aggregation over 24 hours'',
        qd_query = ''
                    from(bucket: \"'' @ tester_bucket self @ ''\")
                      |> range(start: -24h)
                      |> filter(fn: (r) => r._measurement == \"patient_vitals\")
                      |> filter(fn: (r) => r._field == \"vital_value\")
                      |> aggregateWindow(every: 1h, fn: mean, createEmpty: false)
                ''\<rparr>,
      \<lparr>qd_name = ''group_by_patient'', qd_type = ''group_by'',
        qd_description = ''Group by patient and calculate statistics'',
        qd_query = ''
                    from(bucket: \"'' @ tester_bucket self @ ''\")
                      |> range(start: -24h)
                      |> filter(fn: (r) => r._measurement == \"patient_vitals\")
                      |> filter(fn: (r) => r._field == \"vital_value\")
                      |> group(columns: [\"patient_id\", \"vital_type\"])
                      |> mean()
                      |> sort(columns: [\"_value\"], desc: true)
                ''\<rparr>,
      \<lparr>qd_name = ''complex_aggregation'', qd_type = ''complex'',
        qd_description = ''Multiple aggregations with filtering'',
        qd_query = ''
                    from(bucket: \"'' @ tester_bucket self @ ''\")
                      |> range(start: -7d)
                      |> filter(fn: (r) => r._measurement == \"patient_vitals\")
                      |> filter(fn: (r) => r._field == \"vital_value\")
                      |> filter(fn: (r) => r.vital_type == \"heart_rate_bpm\")
                      |> group(columns: [\"patient_department\"])
                      |> aggregateWindow(
                          every: 1h,
                          fn: (column, tables=<-) => tables
                            |> mean(column: column)
                            |> map(fn: (r) => ({r with _value: round(x: r._value, precision: 1)}))
                        )
                      |> mean()
                ''\<rparr>,
      \<lparr>qd_name = ''alert_detection'', qd_type = ''filtering'',
        qd_description = ''Filter alerts with conditions'',
        qd_query = ''
                    from(bucket: \"'' @ tester_bucket self @ ''\")
                      |> range(start: -1h)
                      |> filter(fn: (r) => r._measurement == \"patient_vitals\")
                      |> filter(fn: (r) => r._field == \"is_alert\")
                      |> filter(fn: (r) => r._value == true)
                      |> count()
                ''\<rparr>,
      \<lparr>qd_name = ''join_simulation'', qd_type = ''complex'',
        qd_description = ''Simulate join-like behavior'',
        qd_query = ''
                    alerts = from(bucket: \"'' @ tester_bucket self @ ''\")
                      |> range(start: -1h)
                      |> filter(fn: (r) => r._measurement == \"patient_vitals\")
                      |> filter(fn: (r) => r._field == \"is_alert\")
                      |> filter(fn: (r) => r._value == true)
                    
                    vitals = from(bucket: \"'' @ tester_bucket self @ ''\")
                      |> range(start: -1h)
                      |> filter(fn: (r) => r._measurement == \"patient_vitals\")
                      |> filter(fn: (r) => r._field == \"vital_value\")
                    
                    join(tables: {alerts: alerts, vitals: vitals}, on: [\"patient_id\", \"_time\"])
                      |> yield(name: \"joined_data\")
                ''\<rparr>,
      \<lparr>qd_name = ''large_time_range'', qd_type = ''large_scale'',
        qd_description = ''Query large time range (30 days)'',
        qd_query = ''
                    from(bucket: \"'' @ tester_bucket self @ ''\")
                      |> range(start: -30d)
                      |> filter(fn: (r) => r._measurement == \"patient_vitals\")
                      |> filter(fn: (r) => r._field == \"vital_value\")
                      |> aggregateWindow(every: 6h, fn: mean, createEmpty: false)
                      |> limit(n: 1000)
                ''\<rparr>,
      \<lparr>qd_name = ''high_cardinality'', qd_type = ''high_cardinality'',
        qd_description = ''Query with high cardinality groups'',
        qd_query = ''
                    from(bucket: \"'' @ tester_bucket self @ ''\")
                      |> range(start: -1h)
                      |> filter(fn: (r) => r._measurement == \"patient_vitals\")
                      |> filter(fn: (r) => r._field == \"vital_value\")
                      |> group(columns: [\"patient_id\", \"vital_type\", \"device_id\"])
                      |> count()
                ''\<rparr>]"

text \<open>
  \<open>run_comprehensive_test\<close> up to the results it returns: the fixed queries, five measured
  iterations and two warmup runs; the analysis and the report are written from these results.
\<close>

definition run_comprehensive_test :: "query_client \<Rightarrow> tester \<Rightarrow> nat \<Rightarrow> QueryResult list" where
  "run_comprehensive_test client self c =
     (let test_queries = define_test_queries self
      in run_performance_test client test_queries 5 2 c)"


text \<open>
  The call counter at which the test of each definition starts, used to name the runs of a
  performance test.
\<close>

fun query_starts :: "query_client \<Rightarrow> query_def list \<Rightarrow> int \<Rightarrow> int \<Rightarrow> nat \<Rightarrow> nat list" where
  "query_starts client [] iterations warmup_iterations c = []"
| "query_starts client (qd # qds) iterations warmup_iterations c =
     c # query_starts client qds iterations warmup_iterations
           (snd (run_query_test client qd iterations warmup_iterations c))"

text \<open>
  A client whose first three calls succeed in 2 seconds with 10 records and whose later calls
  raise an exception with an empty message, such as \<open>TimeoutError()\<close>; and one query
  definition.
\<close>

definition empty_message_client :: query_client where
  "empty_message_client query k = (if k < 3 then QueryOk 2 10 else QueryRaises [])"

definition probe_query :: query_def where
  "probe_query = \<lparr>qd_name = ''probe'', qd_type = ''simple_select'',
     qd_description = ''Select recent data'', qd_query = ''from(bucket: \"b\")''\<rparr>"


section \<open>Security token manager (13_security_tokens.py)\<close>

text \<open>
  An exception is its class name and message; everything the SDK and the file system raise
  here derives from \<open>Exception\<close>, which is what the handlers catch. The vendor API is a record
  of oracles, one per call the manager makes, each returning a value or raising. A method
  returns \<open>Inr\<close> of its value or \<open>Inl\<close> of the exception that leaves it; printing is left out.

  The objects the API returns are read attribute by attribute inside the \<open>try\<close> blocks.
  \<open>resource_type\<close> is what reading \<open>perm.resource.resource_type\<close> gives: a string, or the
  exception the read raises when the object has no such attribute. \<open>auth_permissions\<close> is
  \<open>None\<close> when the authorization carries no list, on which the loop raises \<open>TypeError\<close>.
  \<open>auth_user\<close> and \<open>auth_org\<close> are \<open>None\<close> when \<open>hasattr\<close> is false, and otherwise hold the
  value of the attribute, which may itself be \<open>None\<close>.
\<close>

datatype exn = Exn string string

record permission_resource =
  resource_type :: "exn + string"
  resource_id :: "string option"
  resource_name :: "string option"

record permission =
  action :: string
  resource :: permission_resource

record authorization =
  auth_id :: string
  auth_description :: "string option"
  auth_permissions :: "permission list option"
  auth_created_at :: "string option"
  auth_updated_at :: "string option"
  auth_status :: string
  auth_user :: "string option option"
  auth_user_id :: string
  auth_org :: "string option option"
  auth_org_id :: string

record TokenInfo =
  ti_id :: string
  ti_description :: string
  ti_permissions :: "string list"
  ti_created_at :: "string option"
  ti_updated_at :: "string option"
  ti_status :: string
  ti_user_name :: "string option"
  ti_user_id :: string
  ti_org_name :: "string option"
  ti_org_id :: string

text \<open>The objects \<open>create_token\<close> builds for its request.\<close>

record new_resource =
  new_type :: string
  new_id :: "string option"
  new_name :: "string option"
  new_org_id :: "string option"
  new_org :: "string option"

record new_permission =
  new_action :: string
  new_resource :: new_resource

record authorization_request =
  req_org_id :: string
  req_user_id :: "string option"
  req_description :: string
  req_permissions :: "new_permission list"
  req_status :: string

record token_export =
  export_id :: string
  export_description :: string
  export_permissions :: "string list"
  export_created_at :: string
  export_updated_at :: string
  export_status :: string
  export_user_name :: "string option"
  export_user_id :: string
  export_org_name :: "string option"
  export_org_id :: string

record sdk =
  find_authorizations :: "string \<Rightarrow> string option \<Rightarrow> exn + authorization list"
  find_authorization_by_id :: "string \<Rightarrow> exn + authorization"
  create_authorization :: "authorization_request \<Rightarrow> exn + authorization"
  update_authorization :: "string \<Rightarrow> string option \<Rightarrow> string option \<Rightarrow> exn + unit"
  delete_authorization :: "string \<Rightarrow> exn + unit"
  find_organizations :: "string \<Rightarrow> exn + string list"
  find_bucket_by_name :: "string \<Rightarrow> exn + string option"
  write_json :: "string \<Rightarrow> token_export list \<Rightarrow> exn + unit"

text \<open>The exceptions Python raises on \<open>None\<close> in these methods.\<close>

definition quoted :: "string \<Rightarrow> string" where
  "quoted s = [CHR 0x27] @ s @ [CHR 0x27]"

definition none_not_iterable :: exn where
  "none_not_iterable = Exn ''TypeError'' (quoted ''NoneType'' @ '' object is not iterable'')"

definition none_has_no_isoformat :: exn where
  "none_has_no_isoformat =
     Exn ''AttributeError''
       (quoted ''NoneType'' @ '' object has no attribute '' @ quoted ''isoformat'')"

text \<open>The truth value of an optional string: \<open>None\<close> and the empty string are false.\<close>

definition nonempty :: "string option \<Rightarrow> bool" where
  "nonempty s = (case s of None \<Rightarrow> False | Some t \<Rightarrow> t \<noteq> [])"

text \<open>
  One pass of the loop over \<open>auth.permissions\<close>: the read of \<open>perm.resource.resource_type\<close>
  comes first and may raise; the text is then chosen by the name and the id of the resource.
\<close>

definition permission_text :: "permission \<Rightarrow> exn + string" where
  "permission_text perm =
     bind_err (resource_type (resource perm)) (\<lambda>rtype.
       if nonempty (resource_name (resource perm)) then
         Inr (action perm @ '' '' @ rtype @ '' ''
               @ [CHR 0x27] @ the (resource_name (resource perm)) @ [CHR 0x27])
       else if nonempty (resource_id (resource perm)) then
         Inr (action perm @ '' '' @ rtype @ '' with id ''
               @ [CHR 0x27] @ the (resource_id (resource perm)) @ [CHR 0x27])
       else Inr (action perm @ '' '' @ rtype))"

fun permission_texts :: "permission list \<Rightarrow> string list \<Rightarrow> exn + string list" where
  "permission_texts [] permissions = Inr permissions"
| "permission_texts (perm # rest) permissions =
     bind_err (permission_text perm) (\<lambda>t. permission_texts rest (permissions @ [t]))"

text \<open>
  The construction of a \<open>TokenInfo\<close> from an authorization, as \<open>list_tokens\<close> and
  \<open>get_token_info\<close> both write it; \<open>org\<close> is \<open>self.org\<close>. It raises what the permission loop
  raises.
\<close>

definition token_info_of :: "string \<Rightarrow> authorization \<Rightarrow> exn + TokenInfo" where
  "token_info_of org auth =
     bind_err (case auth_permissions auth of
                 None \<Rightarrow> Inl none_not_iterable
               | Some perms \<Rightarrow> permission_texts perms []) (\<lambda>permissions.
       Inr \<lparr>ti_id = auth_id auth,
            ti_description = (if nonempty (auth_description auth)
                              then the (auth_description auth) else ''No description''),
            ti_permissions = permissions,
            ti_created_at = auth_created_at auth,
            ti_updated_at = auth_updated_at auth,
            ti_status = (if auth_status auth = ''active'' then ''active'' else ''inactive''),
            ti_user_name = (case auth_user auth of Some u \<Rightarrow> u | None \<Rightarrow> Some ''Unknown''),
            ti_user_id = auth_user_id auth,
            ti_org_name = (case auth_org auth of Some g \<Rightarrow> g | None \<Rightarrow> Some org),
            ti_org_id = auth_org_id auth\<rparr>)"

text \<open>
  The loop of \<open>list_tokens\<close> over the authorizations, inside the \<open>try\<close>: it appends to
  \<open>tokens\<close> and stops at the first authorization whose conversion raises. The result is the
  list as it then stands, with the exception that ended the loop, if any.
\<close>

fun tokens_loop ::
  "string \<Rightarrow> authorization list \<Rightarrow> TokenInfo list \<Rightarrow> TokenInfo list \<times> exn option" where
  "tokens_loop org [] tokens = (tokens, None)"
| "tokens_loop org (auth # rest) tokens =
     (case token_info_of org auth of
        Inl e \<Rightarrow> (tokens, Some e)
      | Inr token_info \<Rightarrow> tokens_loop org rest (tokens @ [token_info]))"

text \<open>
  \<open>list_tokens\<close>: the handler only prints, and \<open>return tokens\<close> follows it, so the tokens
  appended before an exception are returned.
\<close>

definition list_tokens :: "sdk \<Rightarrow> string \<Rightarrow> string option \<Rightarrow> exn + TokenInfo list" where
  "list_tokens api org uid =
     (case find_authorizations api org uid of
        Inr authorizations \<Rightarrow> Inr (fst (tokens_loop org authorizations []))
      | Inl e \<Rightarrow> Inr [])"

definition get_token_info :: "sdk \<Rightarrow> string \<Rightarrow> string \<Rightarrow> exn + TokenInfo option" where
  "get_token_info api org token_id =
     (case bind_err (find_authorization_by_id api token_id) (token_info_of org) of
        Inr token_info \<Rightarrow> Inr (Some token_info)
      | Inl e \<Rightarrow> Inr None)"

text \<open>\<open>get_org_id\<close> and \<open>get_bucket_id\<close>: the handler prints and raises the exception again.\<close>

definition get_org_id :: "sdk \<Rightarrow> string \<Rightarrow> exn + string" where
  "get_org_id api org =
     (case (case find_organizations api org of
              Inl e \<Rightarrow> Inl e
            | Inr orgs \<Rightarrow>
                (if orgs \<noteq> [] then Inr (hd orgs)
                 else Inl (Exn ''ValueError''
                        (''Organization '' @ [CHR 0x27] @ org @ [CHR 0x27] @ '' not found''))))
      of Inr v \<Rightarrow> Inr v
       | Inl e \<Rightarrow> Inl e)"

definition get_bucket_id :: "sdk \<Rightarrow> string \<Rightarrow> exn + string" where
  "get_bucket_id api bucket_name =
     (case (case find_bucket_by_name api bucket_name of
              Inl e \<Rightarrow> Inl e
            | Inr bucket \<Rightarrow>
                (case bucket of
                   Some b \<Rightarrow> Inr b
                 | None \<Rightarrow> Inl (Exn ''ValueError''
                        (''Bucket '' @ [CHR 0x27] @ bucket_name @ [CHR 0x27] @ '' not found''))))
      of Inr v \<Rightarrow> Inr v
       | Inl e \<Rightarrow> Inl e)"

text \<open>
  The permission dicts given to \<open>create_token\<close>; \<open>perm["resource_type"]\<close> and
  \<open>perm["action"]\<close> raise \<open>KeyError\<close> when the key is missing.
\<close>

definition to_permission :: "(string \<times> string) list \<Rightarrow> exn + new_permission" where
  "to_permission perm =
     (case map_of perm ''resource_type'' of
        None \<Rightarrow> Inl (Exn ''KeyError'' ''resource_type'')
      | Some t \<Rightarrow>
          (case map_of perm ''action'' of
             None \<Rightarrow> Inl (Exn ''KeyError'' ''action'')
           | Some a \<Rightarrow>
               Inr \<lparr>new_action = a,
                    new_resource =
                      \<lparr>new_type = t, new_id = map_of perm ''resource_id'',
                       new_name = map_of perm ''resource_name'',
                       new_org_id = map_of perm ''org_id'',
                       new_org = map_of perm ''org_name''\<rparr>\<rparr>))"

fun to_permissions :: "(string \<times> string) list list \<Rightarrow> exn + new_permission list" where
  "to_permissions [] = Inr []"
| "to_permissions (p # ps) =
     bind_err (to_permission p) (\<lambda>q. bind_err (to_permissions ps) (\<lambda>qs. Inr (q # qs)))"

definition create_token ::
  "sdk \<Rightarrow> string \<Rightarrow> string \<Rightarrow> (string \<times> string) list list \<Rightarrow> string option
     \<Rightarrow> exn + TokenInfo option" where
  "create_token api org descr perms uid =
     (case bind_err (to_permissions perms) (\<lambda>influx_permissions.
             bind_err (get_org_id api org) (\<lambda>oid.
             bind_err (create_authorization api
                         \<lparr>req_org_id = oid, req_user_id = uid, req_description = descr,
                            req_permissions = influx_permissions, req_status = ''active''\<rparr>)
               (\<lambda>created_auth. get_token_info api org (auth_id created_auth))))
      of Inr token_info \<Rightarrow> Inr token_info
       | Inl e \<Rightarrow> Inr None)"

definition update_token ::
  "sdk \<Rightarrow> string \<Rightarrow> string \<Rightarrow> string option \<Rightarrow> string option \<Rightarrow> exn + TokenInfo option" where
  "update_token api org token_id descr st =
     (case bind_err (update_authorization api token_id descr st)
             (\<lambda>u. get_token_info api org token_id)
      of Inr token_info \<Rightarrow> Inr token_info
       | Inl e \<Rightarrow> Inr None)"

definition delete_token :: "sdk \<Rightarrow> string \<Rightarrow> exn + bool" where
  "delete_token api token_id =
     (case delete_authorization api token_id of
        Inr u \<Rightarrow> Inr True
      | Inl e \<Rightarrow> Inr False)"

text \<open>
  \<open>export_tokens\<close>: the dict of one token calls \<open>.isoformat()\<close> on both timestamps, which
  raises \<open>AttributeError\<close> on \<open>None\<close>.
\<close>

definition export_entry :: "TokenInfo \<Rightarrow> exn + token_export" where
  "export_entry t =
     (case ti_created_at t of
        None \<Rightarrow> Inl none_has_no_isoformat
      | Some c \<Rightarrow>
          (case ti_updated_at t of
             None \<Rightarrow> Inl none_has_no_isoformat
           | Some u \<Rightarrow>
               Inr \<lparr>export_id = ti_id t, export_description = ti_description t,
                    export_permissions = ti_permissions t, export_created_at = c,
                    export_updated_at = u, export_status = ti_status t,
                    export_user_name = ti_user_name t, export_user_id = ti_user_id t,
                    export_org_name = ti_org_name t, export_org_id = ti_org_id t\<rparr>))"

fun export_entries :: "TokenInfo list \<Rightarrow> exn + token_export list" where
  "export_entries [] = Inr []"
| "export_entries (t # ts) =
     bind_err (export_entry t) (\<lambda>d. bind_err (export_entries ts) (\<lambda>ds. Inr (d # ds)))"

definition export_tokens :: "sdk \<Rightarrow> string \<Rightarrow> string \<Rightarrow> exn + bool" where
  "export_tokens api org output_file =
     (case bind_err (list_tokens api org None) (\<lambda>tokens.
             bind_err (export_entries tokens) (\<lambda>export_data.
             bind_err (write_json api output_file export_data) (\<lambda>u. Inr True)))
      of Inr b \<Rightarrow> Inr b
       | Inl e \<Rightarrow> Inr False)"

text \<open>An API on which every call of the vendor SDK fails, while files can be written.\<close>

definition unreachable_api :: sdk where
  "unreachable_api =
     \<lparr>find_authorizations = (\<lambda>org uid. Inl (Exn ''ApiException'' ''unreachable'')),
      find_authorization_by_id = (\<lambda>i. Inl (Exn ''ApiException'' ''unreachable'')),
      create_authorization = (\<lambda>r. Inl (Exn ''ApiException'' ''unreachable'')),
      update_authorization = (\<lambda>i d s. Inl (Exn ''ApiException'' ''unreachable'')),
      delete_authorization = (\<lambda>i. Inl (Exn ''ApiException'' ''unreachable'')),
      find_organizations = (\<lambda>org. Inl (Exn ''ApiException'' ''unreachable'')),
      find_bucket_by_name = (\<lambda>b. Inl (Exn ''ApiException'' ''unreachable'')),
      write_json = (\<lambda>f d. Inr ())\<rparr>"

text \<open>
  An API that lists two authorizations and finds them by id. The first has no permissions and
  both timestamps; the second has a permission whose resource has no attribute
  \<open>resource_type\<close>, and no timestamps.
\<close>

definition plain_auth :: authorization where
  "plain_auth =
     \<lparr>auth_id = ''0a1b'', auth_description = Some ''reader'', auth_permissions = Some [],
      auth_created_at = Some ''2024-01-01T00:00:00'',
      auth_updated_at = Some ''2024-01-02T00:00:00'', auth_status = ''active'',
      auth_user = Some None, auth_user_id = ''u1'', auth_org = Some (Some ''HealthIoT''),
      auth_org_id = ''o1''\<rparr>"

definition odd_auth :: authorization where
  "odd_auth =
     \<lparr>auth_id = ''0c2d'', auth_description = None,
      auth_permissions = Some
        [\<lparr>action = ''read'',
          resource = \<lparr>resource_type = Inl (Exn ''AttributeError''
                         (quoted ''PermissionResource'' @ '' object has no attribute ''
                            @ quoted ''resource_type'')),
                      resource_id = None, resource_name = Some ''health_iot_metrics''\<rparr>\<rparr>],
      auth_created_at = None, auth_updated_at = None, auth_status = ''active'',
      auth_user = Some None, auth_user_id = ''u1'', auth_org = Some (Some ''HealthIoT''),
      auth_org_id = ''o1''\<rparr>"

definition listing_api :: sdk where
  "listing_api =
     \<lparr>find_authorizations = (\<lambda>org uid. Inr [plain_auth, odd_auth]),
      find_authorization_by_id =
        (\<lambda>i. if i = ''0a1b'' then Inr plain_auth
              else if i = ''0c2d'' then Inr odd_auth
              else Inl (Exn ''ApiException'' ''not found'')),
      create_authorization = (\<lambda>r. Inr odd_auth),
      update_authorization = (\<lambda>i d s. Inr ()),
      delete_authorization = (\<lambda>i. Inr ()),
      find_organizations = (\<lambda>org. Inr [''o1'']),
      find_bucket_by_name = (\<lambda>b. Inr (Some ''b1'')),
      write_json = (\<lambda>f d. Inr ())\<rparr>"

text \<open>The same listing with an authorization that converts but has no timestamps.\<close>

definition undated_api :: sdk where
  "undated_api =
     listing_api\<lparr>find_authorizations :=
       (\<lambda>org uid. Inr [plain_auth\<lparr>auth_created_at := None\<rparr>])\<rparr>"


section \<open>Dataset generator (01_generate_health_iot_dataset.py)\<close>

text \<open>
  A timestamp is the number of seconds since \<open>base_time\<close>, 2025-01-01 00:00:00, and is not
  bounded as a \<open>datetime\<close> is. The random module is a sequence of draws, one record per row:
  the four indices picked by \<open>random.choice\<close> (any natural number, reduced modulo the length
  of the list), the number \<open>random()\<close> behind \<open>random.uniform\<close>, which computes
  \<open>a + (b - a) * random()\<close>, and the number \<open>random.random()\<close> of the alert branch. A row of
  the DataFrame has an optional value (\<open>None\<close> for a null) in the four columns that
  \<open>validate_dataset\<close> calls critical.
\<close>

record draw =
  pick_patient :: nat
  pick_device :: nat
  pick_department :: nat
  pick_vital :: nat
  uniform_random :: real
  alert_random :: real

record row =
  row_timestamp :: "int option"
  row_patient_id :: "string option"
  row_device_id :: string
  row_vital_type :: "string option"
  row_value :: "real option"
  row_alert_flag :: int
  row_department :: string
  row_data_sensitivity :: string
  row_ingestion_batch :: string

definition zfill :: "nat \<Rightarrow> string \<Rightarrow> string" where
  "zfill width s = replicate (width - length s) (CHR ''0'') @ s"

definition patients :: "string list" where
  "patients = map (\<lambda>i. ''PATIENT_'' @ zfill 5 (str_nat i)) [1..<101]"

definition devices :: "string list" where
  "devices = map (\<lambda>i. ''DEVICE_'' @ zfill 3 (str_nat i)) [1..<21]"

definition departments :: "string list" where
  "departments = [''ICU'', ''WARD'', ''OUTPATIENT'', ''EMERGENCY'', ''CARDIOLOGY'']"

definition vital_types :: "string list" where
  "vital_types =
     [''heart_rate_bpm'', ''blood_pressure_sys_mmhg'', ''blood_pressure_dia_mmhg'',
      ''spo2_percent'', ''temperature_c'', ''respiratory_rate_bpm'', ''blood_glucose_mgdl'']"

definition vital_ranges :: "(string \<times> real \<times> real \<times> real) list" where
  "vital_ranges =
     [(''heart_rate_bpm'', 40, 180, 72),
      (''blood_pressure_sys_mmhg'', 80, 200, 120),
      (''blood_pressure_dia_mmhg'', 50, 120, 80),
      (''spo2_percent'', 70, 100, 98),
      (''temperature_c'', 35, 41, 36.8),
      (''respiratory_rate_bpm'', 8, 40, 16),
      (''blood_glucose_mgdl'', 70, 400, 100)]"

definition choice :: "'a list \<Rightarrow> nat \<Rightarrow> 'a" where
  "choice xs k = xs ! (k mod length xs)"

definition uniform :: "real \<Rightarrow> real \<Rightarrow> real \<Rightarrow> real" where
  "uniform a b u = a + (b - a) * u"

text \<open>The body of the generation loop for row \<open>i\<close>.\<close>

definition generate_record :: "nat \<Rightarrow> draw \<Rightarrow> py_error + row" where
  "generate_record i d =
     (let patient = choice patients (pick_patient d);
          device = choice devices (pick_device d);
          department = choice departments (pick_department d);
          vital_type = choice vital_types (pick_vital d)
      in case map_of vital_ranges vital_type of
           None \<Rightarrow> Inl KeyError
         | Some (min_val, max_val, typical) \<Rightarrow>
             (let hour = (2 * int i) div 3600 mod 24;
                  base_value =
                    (if vital_type = ''heart_rate_bpm'' then
                       (if 2 \<le> hour \<and> hour \<le> 6
                        then typical - 10 + uniform (- 5) 5 (uniform_random d)
                        else if 8 \<le> hour \<and> hour \<le> 18
                        then typical + 5 + uniform (- 10) 10 (uniform_random d)
                        else typical + uniform (- 8) 8 (uniform_random d))
                     else typical + uniform (- 0.2 * typical) (0.2 * typical) (uniform_random d));
                  val = max min_val (min max_val base_value);
                  alert_flag =
                    (if vital_type = ''heart_rate_bpm''
                     then (if val > 120 \<or> val < 50 then 1 else 0)
                     else if vital_type = ''spo2_percent''
                     then (if val < 92 then 1 else 0)
                     else if vital_type = ''blood_pressure_sys_mmhg''
                     then (if val > 160 \<or> val < 90 then 1 else 0)
                     else (if alert_random d < 0.05 then 1 else 0))
              in Inr \<lparr>row_timestamp = Some (2 * int i),
                      row_patient_id = Some patient,
                      row_device_id = device,
                      row_vital_type = Some vital_type,
                      row_value = Some (round2 val),
                      row_alert_flag = alert_flag,
                      row_department = department,
                      row_data_sensitivity = ''PHI'',
                      row_ingestion_batch = ''BATCH_'' @ zfill 3 (str_nat (i div 1000 + 1))\<rparr>))"

fun generate_records :: "(nat \<Rightarrow> draw) \<Rightarrow> nat list \<Rightarrow> py_error + row list" where
  "generate_records draws [] = Inr []"
| "generate_records draws (i # is) =
     bind_err (generate_record i (draws i)) (\<lambda>r.
       bind_err (generate_records draws is) (\<lambda>rs. Inr (r # rs)))"

text \<open>
  \<open>generate_health_iot_data\<close> up to the DataFrame: printing \<open>timestamps[0]\<close> raises
  \<open>IndexError\<close> when no record is asked for.
\<close>

definition generate_health_iot_data :: "int \<Rightarrow> (nat \<Rightarrow> draw) \<Rightarrow> py_error + row list" where
  "generate_health_iot_data num_records draws =
     (if num_records \<le> 0 then Inl IndexError
      else generate_records draws (py_range num_records))"

text \<open>
  The five checks of \<open>validate_dataset\<close>. The second to fifth read the critical columns; on a
  frame with a null there the first check has failed and the result is \<open>False\<close> whatever they
  give, so they are written for the values present. The pattern \<open>^PATIENT_\d{5}$\<close> under
  \<open>re.match\<close> also accepts one trailing newline.
\<close>

definition null_check :: "row list \<Rightarrow> bool" where
  "null_check df =
     list_all (\<lambda>r. row_timestamp r \<noteq> None \<and> row_patient_id r \<noteq> None
                 \<and> row_vital_type r \<noteq> None \<and> row_value r \<noteq> None) df"

definition time_order_check :: "row list \<Rightarrow> bool" where
  "time_order_check df = sorted (map (the \<circ> row_timestamp) df)"

definition vital_data :: "row list \<Rightarrow> string \<Rightarrow> real list" where
  "vital_data df vital_type =
     map (the \<circ> row_value) (filter (\<lambda>r. the (row_vital_type r) = vital_type) df)"

definition value_ranges_valid :: "row list \<Rightarrow> bool" where
  "value_ranges_valid df =
     list_all (\<lambda>vital_type.
         \<not> (Min (set (vital_data df vital_type)) < 0 \<and> vital_type \<noteq> ''temperature_c''))
       (remdups (map (the \<circ> row_vital_type) df))"

definition alert_binary_check :: "row list \<Rightarrow> bool" where
  "alert_binary_check df = list_all (\<lambda>r. row_alert_flag r = 0 \<or> row_alert_flag r = 1) df"

definition is_digit :: "char \<Rightarrow> bool" where
  "is_digit c = (c \<in> set ''0123456789'')"

definition matches_patient_pattern :: "string \<Rightarrow> bool" where
  "matches_patient_pattern s =
     (let body = (if s \<noteq> [] \<and> last s = CHR 0x0A then butlast s else s)
      in take 8 body = ''PATIENT_'' \<and> length body = 13 \<and> list_all is_digit (drop 8 body))"

definition patient_pattern_check :: "row list \<Rightarrow> bool" where
  "patient_pattern_check df =
     list_all (\<lambda>r. matches_patient_pattern (the (row_patient_id r))) df"

definition validate_dataset :: "row list \<Rightarrow> bool" where
  "validate_dataset df =
     (if null_check df
      then time_order_check df \<and> value_ranges_valid df \<and> alert_binary_check df
             \<and> patient_pattern_check df
      else False)"


text \<open>
  What row \<open>i\<close> of a generated frame looks like: its timestamp is \<open>2 * i\<close> seconds after
  \<open>base_time\<close>, its patient is one of the hundred, its value lies in the declared range of
  its vital type, and its alert flag is 0 or 1.
\<close>

definition generated_row_ok :: "nat \<Rightarrow> row \<Rightarrow> bool" where
  "generated_row_ok i r \<longleftrightarrow>
     row_timestamp r = Some (2 * int i)
     \<and> (case row_patient_id r of None \<Rightarrow> False | Some p \<Rightarrow> p \<in> set patients)
     \<and> (case (row_vital_type r, row_value r) of
          (Some vt, Some v) \<Rightarrow>
            (case map_of vital_ranges vt of
               None \<Rightarrow> False
             | Some (lo, hi, typical) \<Rightarrow> lo \<le> v \<and> v \<le> hi \<and> 0 \<le> v)
        | _ \<Rightarrow> False)
     \<and> (row_alert_flag r = 0 \<or> row_alert_flag r = 1)"


section \<open>Properties of the index analyzer\<close>

text \<open>
  C7. The improvement is \<open>time_without / time_with\<close> when both times are strictly positive
  and 1 otherwise; the recommendation is the Excellent message exactly when the improvement
  exceeds 5, the Good message exactly when it lies in (2, 5], the Minor message exactly when it
  lies in (1, 2], and the No-significant-improvement message in every other case; the
  fallback improvement 1 gives the No-significant-improvement message.
\<close>

theorem index_recommendation_thresholds:
  fixes tw two imp :: real
  shows "performance_improvement tw two = (if 0 < tw \<and> 0 < two then two / tw else 1)
    \<and> (generate_index_recommendation qt imp sw swo =
          ''Excellent optimization ('' @ format_1f imp
            @ ''x improvement). Keep current data organization.'' \<longleftrightarrow> 5 < imp)
    \<and> (generate_index_recommendation qt imp sw swo =
          ''Good optimization ('' @ format_1f imp
            @ ''x improvement). Consider adding more specific filters.'' \<longleftrightarrow> 2 < imp \<and> imp \<le> 5)
    \<and> (generate_index_recommendation qt imp sw swo =
          ''Minor optimization ('' @ format_1f imp
            @ ''x improvement). Review query patterns.'' \<longleftrightarrow> 1 < imp \<and> imp \<le> 2)
    \<and> (generate_index_recommendation qt imp sw swo =
          ''No significant improvement. Consider restructuring data or queries.'' \<longleftrightarrow> imp \<le> 1)
    \<and> (\<not> (0 < tw \<and> 0 < two) \<longrightarrow>
          generate_index_recommendation qt (performance_improvement tw two) sw swo =
          ''No significant improvement. Consider restructuring data or queries.'')"
  by (auto simp add: performance_improvement_def generate_index_recommendation_def)

theorem index_recommendation_thresholds_witness:
  "performance_improvement 2 7 = 7 / 2
    \<and> generate_index_recommendation ''tag_filter'' (performance_improvement 2 7) () () =
        ''Good optimization (3.5x improvement). Consider adding more specific filters.''
    \<and> generate_index_recommendation ''tag_filter'' (performance_improvement 0 7) () () =
        ''No significant improvement. Consider restructuring data or queries.''"
proof -
  have f: "format_1f (7 / 2) = ''3.5''"
    by (simp add: format_1f_def py_round_def str_nat.simps digit_char_def)
  have p: "performance_improvement 2 7 = 7 / 2"
    by (simp add: performance_improvement_def)
  have good: "generate_index_recommendation ''tag_filter'' (7 / 2) () () =
      ''Good optimization ('' @ format_1f (7 / 2)
        @ ''x improvement). Consider adding more specific filters.''"
    using index_recommendation_thresholds [of 2 7 "''tag_filter''" "7 / 2" "()" "()"]
    by simp
  have none: "generate_index_recommendation ''tag_filter'' (performance_improvement 0 7) () () =
      ''No significant improvement. Consider restructuring data or queries.''"
    using index_recommendation_thresholds [of 0 7 "''tag_filter''" 1 "()" "()"]
    by simp
  show ?thesis
    unfolding p using good none by (simp add: f)
qed

section \<open>Properties of the security analyzer\<close>

lemma get_lower_wf:
  "well_formed_feature f \<Longrightarrow> get_lower f ''description'' = Inr (lower (text_of f ''description''))"
  "well_formed_feature f \<Longrightarrow> get_lower f ''feature'' = Inr (lower (text_of f ''feature''))"
  by (auto simp: well_formed_feature_def get_lower_def text_of_def lower_def
      split: option.splits pyval.splits)

lemma supports_wf:
  "well_formed_feature f \<Longrightarrow> supports req f = Inr (spec_feature_matches req f)"
  by (simp add: supports_def get_lower_wf bind_err_def str_in_def spec_feature_matches_def)

lemma feature_support_wf:
  "\<forall>f\<in>set fs. well_formed_feature f \<Longrightarrow>
     feature_support req fs = Inr (spec_requirement_matched req fs)"
  by (induction fs) (simp_all add: supports_wf bind_err_def spec_requirement_matched_def)

lemma supporting_features_wf:
  "\<forall>f\<in>set fs. well_formed_feature f \<Longrightarrow>
     \<exists>vs. supporting_features req fs = Inr vs"
proof (induction fs)
  case Nil
  show ?case by simp
next
  case (Cons f fs)
  then obtain vs where vs: "supporting_features req fs = Inr vs" by auto
  from Cons.prems obtain s where "map_of f ''feature'' = Some (PStr s)"
    by (auto simp: well_formed_feature_def split: option.splits pyval.splits)
  with vs Cons.prems show ?case
    by (simp add: supports_wf bind_err_def)
qed

lemma assess_requirements_wf:
  assumes "\<forall>f\<in>set fs. well_formed_feature f"
  shows "\<exists>ds'. assess_requirements fs db reqs sc ds = Inr (sc + spec_matched_count reqs fs, ds @ ds')
     \<and> map requirement ds' = reqs
     \<and> (\<forall>d\<in>set ds'. (status d = ''Compliant'') = spec_requirement_matched (requirement d) fs)
     \<and> (\<forall>d\<in>set ds'. (status d = ''Non-Compliant'') = (\<not> spec_requirement_matched (requirement d) fs))"
proof (induction reqs arbitrary: sc ds)
  case Nil
  show ?case by (simp add: spec_matched_count_def)
next
  case (Cons req reqs)
  show ?case
  proof (cases "spec_requirement_matched req fs")
    case True
    from supporting_features_wf [OF assms, of req] obtain vs
      where vs: "supporting_features req fs = Inr vs" by blast
    let ?d = "\<lparr>requirement = req, status = ''Compliant'', extra = Features vs\<rparr>"
    from Cons.IH [of "sc + 1" "ds @ [?d]"] obtain ds' where
      ih: "assess_requirements fs db reqs (sc + 1) (ds @ [?d]) =
             Inr (sc + 1 + spec_matched_count reqs fs, (ds @ [?d]) @ ds')"
      "map requirement ds' = reqs"
      "\<forall>d\<in>set ds'. (status d = ''Compliant'') = spec_requirement_matched (requirement d) fs"
      "\<forall>d\<in>set ds'. (status d = ''Non-Compliant'') = (\<not> spec_requirement_matched (requirement d) fs)"
      by blast
    show ?thesis
      apply (rule exI [of _ "?d # ds'"])
      using True ih vs
      by (simp add: feature_support_wf [OF assms] bind_err_def spec_matched_count_def)
  next
    case False
    let ?d = "\<lparr>requirement = req, status = ''Non-Compliant'',
                extra = Notes (''No native '' @ db @ '' feature found'')\<rparr>"
    from Cons.IH [of sc "ds @ [?d]"] obtain ds' where
      ih: "assess_requirements fs db reqs sc (ds @ [?d]) =
             Inr (sc + spec_matched_count reqs fs, (ds @ [?d]) @ ds')"
      "map requirement ds' = reqs"
      "\<forall>d\<in>set ds'. (status d = ''Compliant'') = spec_requirement_matched (requirement d) fs"
      "\<forall>d\<in>set ds'. (status d = ''Non-Compliant'') = (\<not> spec_requirement_matched (requirement d) fs)"
      by blast
    show ?thesis
      apply (rule exI [of _ "?d # ds'"])
      using False ih
      by (simp add: feature_support_wf [OF assms] bind_err_def spec_matched_count_def)
  qed
qed


lemma py_round_of_int [simp]: "py_round (of_int k) = k"
  by (simp add: py_round_def)

lemma round2_of_int: "round2 (of_int k) = of_int k"
proof -
  have "of_int k * (100::real) = of_int (k * 100)" by simp
  then have "py_round (of_int k * 100) = k * 100" by (simp only: py_round_of_int)
  then show ?thesis by (simp add: round2_def)
qed

lemma round2_fifths: "round2 (real m / 5 * 100) = real m / 5 * 100"
proof -
  have "real m / 5 * 100 = of_int (int (20 * m))" by simp
  then show ?thesis by (simp only: round2_of_int)
qed

lemma assess_framework_wf:
  assumes "\<forall>f\<in>set fs. well_formed_feature f"
  shows "\<exists>e. assess_framework fs db fw = Inr e
     \<and> framework e = fw_name fw
     \<and> map requirement (details e) = requirements fw
     \<and> (\<forall>d\<in>set (details e).
           (status d = ''Compliant'') = spec_requirement_matched (requirement d) fs)
     \<and> (\<forall>d\<in>set (details e).
           (status d = ''Non-Compliant'') = (\<not> spec_requirement_matched (requirement d) fs))
     \<and> score e = round2 (if requirements fw = [] then 0
          else real (spec_matched_count (requirements fw) fs) / real (length (requirements fw)) * 100)
     \<and> entry_status e = get_compliance_status (if requirements fw = [] then 0
          else real (spec_matched_count (requirements fw) fs) / real (length (requirements fw)) * 100)"
proof -
  from assess_requirements_wf [OF assms, of db "requirements fw" 0 "[]"] obtain ds where
    ds: "assess_requirements fs db (requirements fw) 0 [] =
           Inr (spec_matched_count (requirements fw) fs, ds)"
      "map requirement ds = requirements fw"
      "\<forall>d\<in>set ds. (status d = ''Compliant'') = spec_requirement_matched (requirement d) fs"
      "\<forall>d\<in>set ds. (status d = ''Non-Compliant'') = (\<not> spec_requirement_matched (requirement d) fs)"
    by auto
  show ?thesis
    using ds by (simp add: assess_framework_def bind_err_def Let_def)
qed

lemma assess_compliance_loop_wf:
  assumes "\<forall>f\<in>set fs. well_formed_feature f"
  shows "\<exists>es. assess_compliance_loop fws fs db = Inr es
     \<and> list_all2 (\<lambda>(k, fw) (k', e). k' = k \<and> assess_framework fs db fw = Inr e) fws es"
proof (induction fws)
  case Nil
  show ?case by simp
next
  case (Cons kfw fws)
  obtain k fw where kfw: "kfw = (k, fw)" by (cases kfw)
  from assess_framework_wf [OF assms, of db fw] obtain e
    where e: "assess_framework fs db fw = Inr e" by blast
  from Cons.IH obtain es where
    es: "assess_compliance_loop fws fs db = Inr es"
      "list_all2 (\<lambda>(k, fw) (k', e). k' = k \<and> assess_framework fs db fw = Inr e) fws es"
    by blast
  show ?case
    using e es by (simp add: kfw bind_err_def)
qed

text \<open>
  C2. For a list of well-formed features, \<open>_assess_compliance\<close> returns one entry per
  framework of \<open>security_frameworks\<close>, in order. A requirement is marked Compliant exactly
  when its name is a substring of the lowercased description or the lowercased feature name
  of some feature, and Non-Compliant otherwise; the score is the matched share of the
  requirements times 100, rounded to two decimals; the status follows from the score by the
  thresholds 90, 70 and 50.
\<close>

theorem assess_compliance_substring_scoring:
  assumes wf: "\<forall>f\<in>set features. well_formed_feature f"
  shows "\<exists>es. assess_compliance features db = Inr es
     \<and> list_all2 (\<lambda>(k, fw) (k', e). k' = k
          \<and> framework e = fw_name fw
          \<and> map requirement (details e) = requirements fw
          \<and> (\<forall>d\<in>set (details e).
                (status d = ''Compliant'') = spec_requirement_matched (requirement d) features
                \<and> (status d = ''Non-Compliant'')
                    = (\<not> spec_requirement_matched (requirement d) features))
          \<and> score e = round2 (real (spec_matched_count (requirements fw) features)
                                / real (length (requirements fw)) * 100)
          \<and> entry_status e =
               (if score e \<ge> 90 then ''Fully Compliant''
                else if score e \<ge> 70 then ''Mostly Compliant''
                else if score e \<ge> 50 then ''Partially Compliant''
                else ''Non-Compliant''))
        security_frameworks es"
    (is "\<exists>es. _ = Inr es \<and> list_all2 ?Q security_frameworks es")
proof -
  from assess_compliance_loop_wf [OF wf, of security_frameworks db] obtain es where
    es: "assess_compliance features db = Inr es"
      "list_all2 (\<lambda>(k, fw) (k', e). k' = k \<and> assess_framework features db fw = Inr e)
         security_frameworks es"
    by (auto simp: assess_compliance_def)
  have five: "length (requirements fw) = 5" if "(k, fw) \<in> set security_frameworks" for k fw
    using that by (auto simp: security_frameworks_def)
  have step: "?Q (k, fw) (k', e)"
    if mem: "(k, fw) \<in> set security_frameworks"
      and run: "k' = k \<and> assess_framework features db fw = Inr e" for k fw k' e
  proof -
    from five [OF mem] have len: "length (requirements fw) = 5" .
    then have ne: "requirements fw \<noteq> []" by auto
    from assess_framework_wf [OF wf, of db fw] run ne len
    have props: "framework e = fw_name fw" "map requirement (details e) = requirements fw"
      "\<forall>d\<in>set (details e).
         (status d = ''Compliant'') = spec_requirement_matched (requirement d) features"
      "\<forall>d\<in>set (details e).
         (status d = ''Non-Compliant'') = (\<not> spec_requirement_matched (requirement d) features)"
      "score e = round2 (real (spec_matched_count (requirements fw) features) / 5 * 100)"
      "entry_status e =
         get_compliance_status (real (spec_matched_count (requirements fw) features) / 5 * 100)"
      by auto
    from props(5) have sc: "score e = real (spec_matched_count (requirements fw) features) / 5 * 100"
      by (simp only: round2_fifths)
    show ?thesis
      using props(1-4) props(5) props(6) [folded sc] len run
      by (simp add: get_compliance_status_def)
  qed
  have "list_all2 ?Q security_frameworks es"
  proof (rule list.rel_mono_strong [OF es(2)])
    fix x y
    assume "x \<in> set security_frameworks"
      and "(case x of (k, fw) \<Rightarrow> \<lambda>(k', e). k' = k \<and> assess_framework features db fw = Inr e) y"
    then show "?Q x y"
      using step [of "fst x" "snd x" "fst y" "snd y"] by (simp add: case_prod_beta)
  qed
  with es(1) show ?thesis by blast
qed


theorem assess_compliance_substring_scoring_witness:
  "list_all well_formed_feature influx_features
     \<and> (\<exists>es. assess_compliance influx_features ''InfluxDB'' = Inr es
     \<and> list_all2 (\<lambda>(k, fw) (k', e). k' = k
          \<and> framework e = fw_name fw
          \<and> map requirement (details e) = requirements fw
          \<and> (\<forall>d\<in>set (details e).
                (status d = ''Compliant'')
                  = spec_requirement_matched (requirement d) influx_features
                \<and> (status d = ''Non-Compliant'')
                    = (\<not> spec_requirement_matched (requirement d) influx_features))
          \<and> score e = round2 (real (spec_matched_count (requirements fw) influx_features)
                                / real (length (requirements fw)) * 100)
          \<and> entry_status e =
               (if score e \<ge> 90 then ''Fully Compliant''
                else if score e \<ge> 70 then ''Mostly Compliant''
                else if score e \<ge> 50 then ''Partially Compliant''
                else ''Non-Compliant''))
        security_frameworks es)"
proof -
  have wf: "list_all well_formed_feature influx_features"
    by (simp add: influx_features_def mk_feature_def well_formed_feature_def)
  then have "\<forall>f\<in>set influx_features. well_formed_feature f"
    by (simp add: list_all_iff)
  from assess_compliance_substring_scoring [OF this, of "''InfluxDB''"] wf
  show ?thesis by blast
qed

lemma matched_via_lowered:
  "spec_requirement_matched req fs =
     list_ex (\<lambda>(d, n). sublist req d \<or> sublist req n)
       (map (\<lambda>f. (lower (text_of f ''description''), lower (text_of f ''feature''))) fs)"
  by (induction fs) (simp_all add: spec_requirement_matched_def spec_feature_matches_def)

lemma lowered_pg:
  "map (\<lambda>f. (lower (text_of f ''description''), lower (text_of f ''feature''))) pg_features
     = [(''fine-grained access control at row level'', ''row level security (rls)''),
        (''encrypted connections'', ''ssl/tls encryption''),
        (''column-level encryption support'', ''column encryption''),
        (''comprehensive audit trail'', ''audit logging''),
        (''granular permissions system'', ''role-based access control'')]"
  by code_simp

lemma lowered_influx:
  "map (\<lambda>f. (lower (text_of f ''description''), lower (text_of f ''feature''))) influx_features
     = [(''api tokens for authentication'', ''token-based authentication''),
        (''encrypted communications'', ''tls/ssl encryption''),
        (''basic user and permission system'', ''user management''),
        (''limited in open source version'', ''audit logs''),
        (''automatic data expiration'', ''data retention policies'')]"
  by code_simp

lemma lowered_mongo:
  "map (\<lambda>f. (lower (text_of f ''description''), lower (text_of f ''feature''))) mongo_features
     = [(''fine-grained role permissions'', ''role-based access control''),
        (''client-side field encryption'', ''field-level encryption''),
        (''comprehensive audit trail'', ''audit logging''),
        (''encrypted connections'', ''tls/ssl encryption''),
        (''enterprise directory integration'', ''ldap integration'')]"
  by code_simp

lemma all_requirements:
  "concat (map (requirements \<circ> snd) security_frameworks) =
     [''access_controls'', ''audit_trails'', ''data_encryption'', ''authentication'',
      ''authorization'', ''data_protection'', ''consent_management'', ''right_to_erasure'',
      ''data_portability'', ''privacy_by_design'', ''risk_assessment'', ''security_policies'',
      ''access_control'', ''cryptography'', ''physical_security'']"
  by (simp add: security_frameworks_def)

lemma matched_pg:
  "filter (\<lambda>req. spec_requirement_matched req pg_features)
     (concat (map (requirements \<circ> snd) security_frameworks)) = []"
  unfolding matched_via_lowered lowered_pg all_requirements by code_simp

lemma matched_mongo:
  "filter (\<lambda>req. spec_requirement_matched req mongo_features)
     (concat (map (requirements \<circ> snd) security_frameworks)) = []"
  unfolding matched_via_lowered lowered_mongo all_requirements by code_simp

lemma matched_influx:
  "filter (\<lambda>req. spec_requirement_matched req influx_features)
     (concat (map (requirements \<circ> snd) security_frameworks)) = [''authentication'']"
  unfolding matched_via_lowered lowered_influx all_requirements by code_simp

lemma counts_pg:
  "map (\<lambda>(k, fw). (k, spec_matched_count (requirements fw) pg_features)) security_frameworks
     = [(''hipaa'', 0), (''gdpr'', 0), (''iso_27001'', 0)]"
  unfolding spec_matched_count_def matched_via_lowered lowered_pg security_frameworks_def
  by code_simp

lemma counts_mongo:
  "map (\<lambda>(k, fw). (k, spec_matched_count (requirements fw) mongo_features)) security_frameworks
     = [(''hipaa'', 0), (''gdpr'', 0), (''iso_27001'', 0)]"
  unfolding spec_matched_count_def matched_via_lowered lowered_mongo security_frameworks_def
  by code_simp

lemma counts_influx:
  "map (\<lambda>(k, fw). (k, spec_matched_count (requirements fw) influx_features)) security_frameworks
     = [(''hipaa'', 1), (''gdpr'', 0), (''iso_27001'', 0)]"
  unfolding spec_matched_count_def matched_via_lowered lowered_influx security_frameworks_def
  by code_simp

lemma hardcoded_well_formed:
  "\<forall>f\<in>set pg_features. well_formed_feature f"
  "\<forall>f\<in>set influx_features. well_formed_feature f"
  "\<forall>f\<in>set mongo_features. well_formed_feature f"
  by (simp_all add: pg_features_def influx_features_def mongo_features_def mk_feature_def
      well_formed_feature_def)

lemma assess_loop_scores:
  assumes wf: "\<forall>f\<in>set fs. well_formed_feature f"
    and five: "\<forall>(k, fw)\<in>set fws. length (requirements fw) = 5"
  shows "map_sum id (map (\<lambda>(k, e). (k, score e, entry_status e)))
           (assess_compliance_loop fws fs db)
     = Inr (map (\<lambda>(k, c). (k, 20 * real c, get_compliance_status (20 * real c)))
         (map (\<lambda>(k, fw). (k, spec_matched_count (requirements fw) fs)) fws))"
  using five
proof (induction fws)
  case Nil
  show ?case by simp
next
  case (Cons kfw fws)
  obtain k fw where kfw: "kfw = (k, fw)" by (cases kfw)
  from Cons.prems have len: "length (requirements fw) = 5" by (simp add: kfw)
  then have ne: "requirements fw \<noteq> []" by auto
  from assess_framework_wf [OF wf, of db fw] obtain e where
    e: "assess_framework fs db fw = Inr e"
      "score e = round2 (real (spec_matched_count (requirements fw) fs) / 5 * 100)"
      "entry_status e =
         get_compliance_status (real (spec_matched_count (requirements fw) fs) / 5 * 100)"
    using ne len by auto
  have "score e = real (spec_matched_count (requirements fw) fs) / 5 * 100"
    unfolding e(2) by (rule round2_fifths)
  then have sc: "score e = 20 * real (spec_matched_count (requirements fw) fs)"
    by simp
  from e(3) have st: "entry_status e =
      get_compliance_status (20 * real (spec_matched_count (requirements fw) fs))"
    by simp
  from Cons.prems have "\<forall>(k, fw)\<in>set fws. length (requirements fw) = 5" by simp
  from Cons.IH [OF this] obtain es where
    es: "assess_compliance_loop fws fs db = Inr es"
      "map (\<lambda>(k, e). (k, score e, entry_status e)) es =
         map (\<lambda>(k, c). (k, 20 * real c, get_compliance_status (20 * real c)))
           (map (\<lambda>(k, fw). (k, spec_matched_count (requirements fw) fs)) fws)"
    by (cases "assess_compliance_loop fws fs db") auto
  show ?case
    using e(1) es sc st by (simp add: kfw bind_err_def)
qed

lemma frameworks_five: "\<forall>(k, fw)\<in>set security_frameworks. length (requirements fw) = 5"
  by (simp add: security_frameworks_def)

text \<open>
  C3. On the hard-coded PostgreSQL and MongoDB feature lists every framework scores 0 and is
  Non-Compliant, and no requirement token is a substring of a feature name or description;
  on the hard-coded InfluxDB list HIPAA scores 20 (only \<open>authentication\<close> matches) and
  GDPR and ISO 27001 score 0.
\<close>

theorem hardcoded_feature_lists_scores:
  "map_sum id (map (\<lambda>(k, e). (k, score e, entry_status e)))
       (assess_compliance pg_features ''PostgreSQL'')
     = Inr [(''hipaa'', 0, ''Non-Compliant''), (''gdpr'', 0, ''Non-Compliant''),
            (''iso_27001'', 0, ''Non-Compliant'')]
   \<and> map_sum id (map (\<lambda>(k, e). (k, score e, entry_status e)))
       (assess_compliance mongo_features ''MongoDB'')
     = Inr [(''hipaa'', 0, ''Non-Compliant''), (''gdpr'', 0, ''Non-Compliant''),
            (''iso_27001'', 0, ''Non-Compliant'')]
   \<and> map_sum id (map (\<lambda>(k, e). (k, score e, entry_status e)))
       (assess_compliance influx_features ''InfluxDB'')
     = Inr [(''hipaa'', 20, ''Non-Compliant''), (''gdpr'', 0, ''Non-Compliant''),
            (''iso_27001'', 0, ''Non-Compliant'')]
   \<and> filter (\<lambda>req. spec_requirement_matched req pg_features)
        (concat (map (requirements \<circ> snd) security_frameworks)) = []
   \<and> filter (\<lambda>req. spec_requirement_matched req mongo_features)
        (concat (map (requirements \<circ> snd) security_frameworks)) = []
   \<and> filter (\<lambda>req. spec_requirement_matched req influx_features)
        (concat (map (requirements \<circ> snd) security_frameworks)) = [''authentication'']"
proof -
  have pg: "map_sum id (map (\<lambda>(k, e). (k, score e, entry_status e)))
       (assess_compliance pg_features ''PostgreSQL'')
     = Inr [(''hipaa'', 0, ''Non-Compliant''), (''gdpr'', 0, ''Non-Compliant''),
            (''iso_27001'', 0, ''Non-Compliant'')]"
    unfolding assess_compliance_def
      assess_loop_scores [OF hardcoded_well_formed(1) frameworks_five] counts_pg
    by (simp add: get_compliance_status_def)
  have mongo: "map_sum id (map (\<lambda>(k, e). (k, score e, entry_status e)))
       (assess_compliance mongo_features ''MongoDB'')
     = Inr [(''hipaa'', 0, ''Non-Compliant''), (''gdpr'', 0, ''Non-Compliant''),
            (''iso_27001'', 0, ''Non-Compliant'')]"
    unfolding assess_compliance_def
      assess_loop_scores [OF hardcoded_well_formed(3) frameworks_five] counts_mongo
    by (simp add: get_compliance_status_def)
  have influx: "map_sum id (map (\<lambda>(k, e). (k, score e, entry_status e)))
       (assess_compliance influx_features ''InfluxDB'')
     = Inr [(''hipaa'', 20, ''Non-Compliant''), (''gdpr'', 0, ''Non-Compliant''),
            (''iso_27001'', 0, ''Non-Compliant'')]"
    unfolding assess_compliance_def
      assess_loop_scores [OF hardcoded_well_formed(2) frameworks_five] counts_influx
    by (simp add: get_compliance_status_def)
  show ?thesis
    using pg mongo influx matched_pg matched_mongo matched_influx by (intro conjI)
qed

theorem hardcoded_feature_lists_scores_witness:
  "map_sum id (map (\<lambda>(k, e). (k, score e, entry_status e)))
       (assess_compliance influx_features ''InfluxDB'')
     = Inr [(''hipaa'', 20, ''Non-Compliant''), (''gdpr'', 0, ''Non-Compliant''),
            (''iso_27001'', 0, ''Non-Compliant'')]"
  using hardcoded_feature_lists_scores by blast


section \<open>Properties of the results collector\<close>

lemma py_round_bounds: "\<lfloor>x\<rfloor> \<le> py_round x \<and> py_round x \<le> \<lceil>x\<rceil>"
proof -
  have "x - of_int \<lfloor>x\<rfloor> > 0 \<Longrightarrow> \<lceil>x\<rceil> = \<lfloor>x\<rfloor> + 1"
    by (simp add: ceiling_altdef)
  then show ?thesis
    by (auto simp: py_round_def Let_def)
qed

lemma round2_upper: "x \<le> of_int k / 100 \<Longrightarrow> round2 x \<le> of_int k / 100"
proof -
  assume "x \<le> of_int k / 100"
  then have "x * 100 \<le> of_int k" by simp
  then have "\<lceil>x * 100\<rceil> \<le> k" by (simp add: ceiling_le_iff)
  with py_round_bounds [of "x * 100"] have "py_round (x * 100) \<le> k" by linarith
  then have "(of_int (py_round (x * 100)) :: real) \<le> of_int k" by simp
  then show ?thesis by (simp add: round2_def divide_right_mono)
qed

lemma round2_lower: "of_int k / 100 \<le> x \<Longrightarrow> of_int k / 100 \<le> round2 x"
proof -
  assume "of_int k / 100 \<le> x"
  then have "of_int k \<le> x * 100" by simp
  then have "k \<le> \<lfloor>x * 100\<rfloor>" by (simp add: le_floor_iff)
  with py_round_bounds [of "x * 100"] have "k \<le> py_round (x * 100)" by linarith
  then have "(of_int k :: real) \<le> of_int (py_round (x * 100))" by simp
  then show ?thesis by (simp add: round2_def divide_right_mono)
qed

lemma round2_range: "0 \<le> x \<Longrightarrow> x \<le> 100 \<Longrightarrow> 0 \<le> round2 x \<and> round2 x \<le> 100"
  using round2_lower [of 0 x] round2_upper [of x 10000] by simp

lemma round2_le_25: "x \<le> 25 \<Longrightarrow> round2 x \<le> 25"
  using round2_upper [of x 2500] by simp

lemma score_row_aligned:
  assumes "columns_aligned c" "i < length (database c)"
  shows "score_row c i = Inr (c\<lparr>total_score := (total_score c)[i := round2 (weighted c i)]\<rparr>)"
  using assms by (simp add: score_row_def columns_aligned_def weighted_def Let_def algebra_simps)

lemma score_rows_aligned:
  assumes "columns_aligned c" "k \<le> length (database c)"
  shows "score_rows c [k..<length (database c)] =
     Inr (c\<lparr>total_score := take k (total_score c)
            @ map (\<lambda>i. round2 (weighted c i)) [k..<length (database c)]\<rparr>)"
  using assms
proof (induction "length (database c) - k" arbitrary: c k)
  case 0
  then have "k = length (database c)" by simp
  with 0 show ?case by (simp add: columns_aligned_def)
next
  case (Suc d)
  then have lt: "k < length (database c)" by simp
  let ?c' = "c\<lparr>total_score := (total_score c)[k := round2 (weighted c k)]\<rparr>"
  have al: "columns_aligned ?c'" using Suc.prems(1) by (simp add: columns_aligned_def)
  have w: "weighted ?c' = weighted c" by (rule ext) (simp add: weighted_def)
  have d: "d = length (database ?c') - Suc k" using Suc.hyps(2) by simp
  have le: "Suc k \<le> length (database ?c')" using lt by simp
  have klen: "k < length (total_score c)" using lt Suc.prems(1) by (simp add: columns_aligned_def)
  from Suc.hyps(1) [OF d al le]
  have ih: "score_rows ?c' [Suc k..<length (database c)] =
     Inr (?c'\<lparr>total_score := take (Suc k) (total_score ?c')
            @ map (\<lambda>i. round2 (weighted c i)) [Suc k..<length (database c)]\<rparr>)"
    by (simp add: w)
  have tk: "take (Suc k) ((total_score c)[k := round2 (weighted c k)])
      = take k (total_score c) @ [round2 (weighted c k)]"
    using klen by (simp add: take_Suc_conv_app_nth)
  show ?case
    using lt ih tk
    by (simp add: upt_conv_Cons score_row_aligned [OF Suc.prems(1) lt] bind_err_def)
qed

lemma py_any_nonneg:
  "list_all (\<lambda>v. 0 \<le> v) vs \<Longrightarrow> py_any vs = list_ex (\<lambda>v. 0 < v) vs"
  by (induction vs) (auto simp: py_any_def)

lemma Max_pos:
  assumes "list_ex (\<lambda>v. 0 < v) vs"
  shows "0 < Max (set (vs :: real list))"
proof -
  from assms obtain v where v: "v \<in> set vs" "0 < v" by (auto simp: list_ex_iff)
  then have "v \<le> Max (set vs)" by simp
  with v show ?thesis by linarith
qed

lemma normalize_higher_nonneg:
  assumes "list_all (\<lambda>v. 0 \<le> v) vs"
  shows "normalize_higher vs =
     (if list_ex (\<lambda>v. 0 < v) vs then map (\<lambda>v. v / Max (set vs) * 100) vs else vs)"
  using Max_pos [of vs] by (simp add: normalize_higher_def py_any_nonneg [OF assms])

lemma normalize_lower_nonneg:
  assumes "list_all (\<lambda>v. 0 \<le> v) vs"
  shows "normalize_lower vs =
     (if list_ex (\<lambda>v. 0 < v) vs then map (\<lambda>v. (1 - v / Max (set vs)) * 100) vs else vs)"
  using Max_pos [of vs] by (simp add: normalize_lower_def py_any_nonneg [OF assms])

lemma scaled_range:
  "0 \<le> r \<and> r \<le> 1 \<Longrightarrow> 0 \<le> r * 100 \<and> r * 100 \<le> (100::real)"
  "0 \<le> r \<and> r \<le> 1 \<Longrightarrow> 0 \<le> (1 - r) * 100 \<and> (1 - r) * 100 \<le> (100::real)"
  by simp_all

lemma all_zero:
  assumes "list_all (\<lambda>v. 0 \<le> v) vs" "\<not> list_ex (\<lambda>v. 0 < v) vs" "v \<in> set vs"
  shows "v = (0::real)"
  using assms by (fastforce simp: list_all_iff list_ex_iff)

lemma ratio_range:
  fixes vs :: "real list"
  assumes "list_all (\<lambda>v. 0 \<le> v) vs" "list_ex (\<lambda>v. 0 < v) vs" "v \<in> set vs"
  shows "0 \<le> v / Max (set vs) \<and> v / Max (set vs) \<le> 1"
proof -
  have m: "0 < Max (set vs)" by (rule Max_pos [OF assms(2)])
  have "v \<le> Max (set vs)" using assms(3) by simp
  moreover have "0 \<le> v" using assms(1,3) by (simp add: list_all_iff)
  ultimately show ?thesis using m by simp
qed

lemma normalize_higher_range:
  assumes "list_all (\<lambda>v. 0 \<le> v) vs"
  shows "list_all (\<lambda>v. 0 \<le> v \<and> v \<le> 100) (normalize_higher vs)"
proof (cases "list_ex (\<lambda>v. 0 < v) vs")
  case True
  have "0 \<le> v / Max (set vs) * 100 \<and> v / Max (set vs) * 100 \<le> 100" if "v \<in> set vs" for v
    by (rule scaled_range(1) [OF ratio_range [OF assms True that]])
  then show ?thesis
    by (simp add: normalize_higher_nonneg [OF assms] True list_all_iff)
next
  case False
  have "0 \<le> v \<and> v \<le> 100" if "v \<in> set vs" for v
    using all_zero [OF assms False that] by simp
  then show ?thesis
    by (simp add: normalize_higher_nonneg [OF assms] False list_all_iff)
qed

lemma normalize_lower_range:
  assumes "list_all (\<lambda>v. 0 \<le> v) vs"
  shows "list_all (\<lambda>v. 0 \<le> v \<and> v \<le> 100) (normalize_lower vs)"
proof (cases "list_ex (\<lambda>v. 0 < v) vs")
  case True
  have "0 \<le> (1 - v / Max (set vs)) * 100 \<and> (1 - v / Max (set vs)) * 100 \<le> 100"
    if "v \<in> set vs" for v
    by (rule scaled_range(2) [OF ratio_range [OF assms True that]])
  then show ?thesis
    by (simp add: normalize_lower_nonneg [OF assms] True list_all_iff)
next
  case False
  have "0 \<le> v \<and> v \<le> 100" if "v \<in> set vs" for v
    using all_zero [OF assms False that] by simp
  then show ?thesis
    by (simp add: normalize_lower_nonneg [OF assms] False list_all_iff)
qed

lemma length_normalize [simp]:
  "length (normalize_higher vs) = length vs" "length (normalize_lower vs) = length vs"
  by (simp_all add: normalize_higher_def normalize_lower_def Let_def)

lemma weighted_range:
  assumes "list_all (\<lambda>v. 0 \<le> v \<and> v \<le> 100) (ingestion_rate c)"
    "list_all (\<lambda>v. 0 \<le> v \<and> v \<le> 100) (query_latency c)"
    "list_all (\<lambda>v. 0 \<le> v \<and> v \<le> 100) (storage_size c)"
    "list_all (\<lambda>v. 0 \<le> v \<and> v \<le> 100) (index_efficiency c)"
    "list_all (\<lambda>v. 0 \<le> v \<and> v \<le> 100) (security_score c)"
    "columns_aligned c" "i < length (database c)"
  shows "0 \<le> weighted c i \<and> weighted c i \<le> 100"
proof -
  have "0 \<le> ingestion_rate c ! i \<and> ingestion_rate c ! i \<le> 100"
    "0 \<le> query_latency c ! i \<and> query_latency c ! i \<le> 100"
    "0 \<le> storage_size c ! i \<and> storage_size c ! i \<le> 100"
    "0 \<le> index_efficiency c ! i \<and> index_efficiency c ! i \<le> 100"
    "0 \<le> security_score c ! i \<and> security_score c ! i \<le> 100"
    using assms by (simp_all add: list_all_length columns_aligned_def)
  then show ?thesis by (simp add: weighted_def)
qed


text \<open>
  C4, as the code has it. For a comparison whose columns are as long as the database list,
  with nonnegative metric values and security scores of at most 100,
  \<open>_normalize_and_score\<close> returns normally; a higher-is-better column with a positive value
  becomes \<open>v / max * 100\<close>, a lower-is-better column with a positive value becomes
  \<open>(1 - v / max) * 100\<close>, a column without a positive value and the security column are left
  as they are; every total is the weighted sum with weights 0.25, 0.25, 0.20, 0.20 and 0.10
  rounded to two decimals, and lies between 0 and 100.
\<close>

theorem normalize_and_score_bounded:
  assumes al: "columns_aligned c" and nn: "nonnegative_metrics c"
    and sec: "list_all (\<lambda>v. v \<le> 100) (security_score c)"
  shows "\<exists>r. normalize_and_score c = Inr r
     \<and> database r = database c
     \<and> ingestion_rate r =
         (if list_ex (\<lambda>v. 0 < v) (ingestion_rate c)
          then map (\<lambda>v. v / Max (set (ingestion_rate c)) * 100) (ingestion_rate c)
          else ingestion_rate c)
     \<and> index_efficiency r =
         (if list_ex (\<lambda>v. 0 < v) (index_efficiency c)
          then map (\<lambda>v. v / Max (set (index_efficiency c)) * 100) (index_efficiency c)
          else index_efficiency c)
     \<and> query_latency r =
         (if list_ex (\<lambda>v. 0 < v) (query_latency c)
          then map (\<lambda>v. (1 - v / Max (set (query_latency c))) * 100) (query_latency c)
          else query_latency c)
     \<and> storage_size r =
         (if list_ex (\<lambda>v. 0 < v) (storage_size c)
          then map (\<lambda>v. (1 - v / Max (set (storage_size c))) * 100) (storage_size c)
          else storage_size c)
     \<and> security_score r = security_score c
     \<and> total_score r =
         map (\<lambda>i. round2 (0.25 * ingestion_rate r ! i + 0.25 * query_latency r ! i
                    + 0.20 * storage_size r ! i + 0.20 * index_efficiency r ! i
                    + 0.10 * security_score r ! i))
           [0..<length (database c)]
     \<and> totals_in_range r"
proof -
  let ?c4 = "c\<lparr>ingestion_rate := normalize_higher (ingestion_rate c),
               index_efficiency := normalize_higher (index_efficiency c),
               query_latency := normalize_lower (query_latency c),
               storage_size := normalize_lower (storage_size c)\<rparr>"
  let ?r = "?c4\<lparr>total_score := map (\<lambda>i. round2 (weighted ?c4 i)) [0..<length (database c)]\<rparr>"
  have al4: "columns_aligned ?c4" using al by (simp add: columns_aligned_def)
  have run: "normalize_and_score c = Inr ?r"
    using score_rows_aligned [OF al4, of 0] by (simp add: normalize_and_score_def Let_def)
  from nn have nns: "list_all (\<lambda>v. 0 \<le> v) (ingestion_rate c)"
    "list_all (\<lambda>v. 0 \<le> v) (query_latency c)" "list_all (\<lambda>v. 0 \<le> v) (storage_size c)"
    "list_all (\<lambda>v. 0 \<le> v) (index_efficiency c)" "list_all (\<lambda>v. 0 \<le> v) (security_score c)"
    by (simp_all add: nonnegative_metrics_def)
  have secr: "list_all (\<lambda>v. 0 \<le> v \<and> v \<le> 100) (security_score ?c4)"
    using nns(5) sec by (simp add: list_all_iff)
  have rng: "0 \<le> weighted ?c4 i \<and> weighted ?c4 i \<le> 100" if "i < length (database c)" for i
  proof (rule weighted_range [OF _ _ _ _ secr al4])
    show "list_all (\<lambda>v. 0 \<le> v \<and> v \<le> 100) (ingestion_rate ?c4)"
      using normalize_higher_range [OF nns(1)] by simp
    show "list_all (\<lambda>v. 0 \<le> v \<and> v \<le> 100) (query_latency ?c4)"
      using normalize_lower_range [OF nns(2)] by simp
    show "list_all (\<lambda>v. 0 \<le> v \<and> v \<le> 100) (storage_size ?c4)"
      using normalize_lower_range [OF nns(3)] by simp
    show "list_all (\<lambda>v. 0 \<le> v \<and> v \<le> 100) (index_efficiency ?c4)"
      using normalize_higher_range [OF nns(4)] by simp
    show "i < length (database ?c4)" using that by simp
  qed
  have tot: "totals_in_range ?r"
    using rng round2_range by (simp add: totals_in_range_def list_all_iff)
  have cols: "ingestion_rate ?r =
         (if list_ex (\<lambda>v. 0 < v) (ingestion_rate c)
          then map (\<lambda>v. v / Max (set (ingestion_rate c)) * 100) (ingestion_rate c)
          else ingestion_rate c)"
    "index_efficiency ?r =
         (if list_ex (\<lambda>v. 0 < v) (index_efficiency c)
          then map (\<lambda>v. v / Max (set (index_efficiency c)) * 100) (index_efficiency c)
          else index_efficiency c)"
    "query_latency ?r =
         (if list_ex (\<lambda>v. 0 < v) (query_latency c)
          then map (\<lambda>v. (1 - v / Max (set (query_latency c))) * 100) (query_latency c)
          else query_latency c)"
    "storage_size ?r =
         (if list_ex (\<lambda>v. 0 < v) (storage_size c)
          then map (\<lambda>v. (1 - v / Max (set (storage_size c))) * 100) (storage_size c)
          else storage_size c)"
    using normalize_higher_nonneg [OF nns(1)] normalize_higher_nonneg [OF nns(4)]
      normalize_lower_nonneg [OF nns(2)] normalize_lower_nonneg [OF nns(3)]
    by simp_all
  have tsum: "total_score ?r =
         map (\<lambda>i. round2 (0.25 * ingestion_rate ?r ! i + 0.25 * query_latency ?r ! i
                    + 0.20 * storage_size ?r ! i + 0.20 * index_efficiency ?r ! i
                    + 0.10 * security_score ?r ! i))
           [0..<length (database c)]"
    by (simp add: weighted_def)
  have "database ?r = database c" "security_score ?r = security_score c" by simp_all
  with run cols tsum tot show ?thesis by blast
qed


theorem normalize_and_score_bounded_witness:
  "columns_aligned \<lparr>database = [''PostgreSQL'', ''InfluxDB'', ''MongoDB''],
       ingestion_rate = [5, 10, 0], query_latency = [1, 2, 4], storage_size = [0, 0, 0],
       index_efficiency = [0, 0, 0], security_score = [50, 0, 0], total_score = [0, 0, 0]\<rparr>
   \<and> nonnegative_metrics \<lparr>database = [''PostgreSQL'', ''InfluxDB'', ''MongoDB''],
       ingestion_rate = [5, 10, 0], query_latency = [1, 2, 4], storage_size = [0, 0, 0],
       index_efficiency = [0, 0, 0], security_score = [50, 0, 0], total_score = [0, 0, 0]\<rparr>
   \<and> (\<exists>r. normalize_and_score \<lparr>database = [''PostgreSQL'', ''InfluxDB'', ''MongoDB''],
       ingestion_rate = [5, 10, 0], query_latency = [1, 2, 4], storage_size = [0, 0, 0],
       index_efficiency = [0, 0, 0], security_score = [50, 0, 0], total_score = [0, 0, 0]\<rparr>
         = Inr r \<and> totals_in_range r)"
  (is "columns_aligned ?c \<and> _ \<and> _")
proof -
  have a: "columns_aligned ?c" by (simp add: columns_aligned_def)
  have n: "nonnegative_metrics ?c" by (simp add: nonnegative_metrics_def)
  have s: "list_all (\<lambda>v. v \<le> 100) (security_score ?c)" by simp
  from normalize_and_score_bounded [OF a n s] obtain r
    where "normalize_and_score ?c = Inr r" "totals_in_range r" by blast
  then have "\<exists>r. normalize_and_score ?c = Inr r \<and> totals_in_range r" by blast
  with a n show ?thesis by (intro conjI)
qed

text \<open>
  The security column is never rescaled: a nonnegative security score of 2000 gives a total
  of 200.
\<close>

theorem total_score_bound_counterexample:
  "columns_aligned \<lparr>database = [''PostgreSQL'', ''InfluxDB'', ''MongoDB''],
       ingestion_rate = [0, 0, 0], query_latency = [0, 0, 0], storage_size = [0, 0, 0],
       index_efficiency = [0, 0, 0], security_score = [2000, 0, 0], total_score = [0, 0, 0]\<rparr>
   \<and> nonnegative_metrics \<lparr>database = [''PostgreSQL'', ''InfluxDB'', ''MongoDB''],
       ingestion_rate = [0, 0, 0], query_latency = [0, 0, 0], storage_size = [0, 0, 0],
       index_efficiency = [0, 0, 0], security_score = [2000, 0, 0], total_score = [0, 0, 0]\<rparr>
   \<and> normalize_and_score \<lparr>database = [''PostgreSQL'', ''InfluxDB'', ''MongoDB''],
       ingestion_rate = [0, 0, 0], query_latency = [0, 0, 0], storage_size = [0, 0, 0],
       index_efficiency = [0, 0, 0], security_score = [2000, 0, 0], total_score = [0, 0, 0]\<rparr>
     = Inr \<lparr>database = [''PostgreSQL'', ''InfluxDB'', ''MongoDB''],
       ingestion_rate = [0, 0, 0], query_latency = [0, 0, 0], storage_size = [0, 0, 0],
       index_efficiency = [0, 0, 0], security_score = [2000, 0, 0], total_score = [200, 0, 0]\<rparr>
   \<and> \<not> totals_in_range \<lparr>database = [''PostgreSQL'', ''InfluxDB'', ''MongoDB''],
       ingestion_rate = [0, 0, 0], query_latency = [0, 0, 0], storage_size = [0, 0, 0],
       index_efficiency = [0, 0, 0], security_score = [2000, 0, 0], total_score = [200, 0, 0]\<rparr>"
  by code_simp

lemma normalize_higher_le_100: "list_all (\<lambda>v. v \<le> 100) (normalize_higher vs)"
proof (cases "py_any vs")
  case False
  then have "v = 0" if "v \<in> set vs" for v
    using that by (auto simp: py_any_def list_ex_iff)
  then have "v \<le> 100" if "v \<in> set vs" for v using that by fastforce
  with False show ?thesis by (simp add: normalize_higher_def list_all_iff)
next
  case True
  then have ne: "vs \<noteq> []" by (auto simp: py_any_def)
  show ?thesis
  proof (cases "0 < Max (set vs)")
    case pos: True
    have "v / Max (set vs) * 100 \<le> 100" if "v \<in> set vs" for v
    proof -
      have "v \<le> Max (set vs)" using that by simp
      with pos have "v / Max (set vs) \<le> 1" by simp
      then have "v / Max (set vs) * 100 \<le> 1 * 100" by (rule mult_right_mono) simp
      then show ?thesis by simp
    qed
    with True pos show ?thesis by (simp add: normalize_higher_def list_all_iff)
  next
    case npos: False
    have "v \<le> 100" if "v \<in> set vs" for v
    proof -
      have "v \<le> Max (set vs)" using that by simp
      with npos show ?thesis by linarith
    qed
    with True npos show ?thesis by (simp add: normalize_higher_def list_all_iff)
  qed
qed

lemma length_initial_ingestion: "length (ingestion_rate (initial_comparison ing)) = 3"
  unfolding initial_comparison_def Let_def
  by (cases "map_of ing ''postgresql''"; cases "map_of ing ''influxdb''";
      cases "map_of ing ''mongodb''") simp_all

lemma normalize_zeros:
  "normalize_higher [0, 0, 0] = [0, 0, 0]" "normalize_lower [0, 0, 0] = [0, 0, 0]"
  by (simp_all add: normalize_higher_def normalize_lower_def py_any_def)

lemma map_three:
  "length xs = 3 \<Longrightarrow> map (\<lambda>i. f (xs ! i)) [0..<3] = map f xs"
  by (rule nth_equalityI) simp_all

lemma idxmax_first:
  assumes "xs \<noteq> []"
  shows "\<exists>w. idxmax xs = Inr w \<and> w < length xs \<and> xs ! w = Max (set xs)
            \<and> list_all (\<lambda>t. t \<le> xs ! w) xs"
proof -
  let ?w = "length (takeWhile (\<lambda>v. v \<noteq> Max (set xs)) xs)"
  have mem: "Max (set xs) \<in> set xs" using assms by (intro Max_in) simp_all
  then have "takeWhile (\<lambda>v. v \<noteq> Max (set xs)) xs \<noteq> xs"
    by (auto simp: takeWhile_eq_all_conv)
  then have lt: "?w < length xs"
    using length_takeWhile_le [of "\<lambda>v. v \<noteq> Max (set xs)" xs]
    by (metis le_neq_implies_less takeWhile_eq_take take_all_iff order_refl)
  from nth_length_takeWhile [OF lt] have at: "xs ! ?w = Max (set xs)" by simp
  have "list_all (\<lambda>t. t \<le> xs ! ?w) xs" unfolding at by (simp add: list_all_iff)
  with lt at assms show ?thesis by (simp add: idxmax_def)
qed

lemma float_str_values: "float_str 25 = ''25.0''" "float_str 0 = ''0.0''"
  by code_simp+

lemma round2_25: "round2 25 = 25" "round2 0 = 0"
  using round2_of_int [of 25] round2_of_int [of 0] by simp_all

lemma best_total_25:
  assumes nn: "list_all (\<lambda>v. 0 \<le> v) vs" and pos: "list_ex (\<lambda>v. 0 < v) vs"
  shows "Max (set (map (\<lambda>v. round2 (0.25 * v)) (normalize_higher vs))) = 25"
proof -
  have ne: "vs \<noteq> []" using pos by auto
  let ?M = "Max (set vs)"
  have M: "0 < ?M" by (rule Max_pos [OF pos])
  have mem: "?M \<in> set vs" using ne by (intro Max_in) simp_all
  have nh: "normalize_higher vs = map (\<lambda>v. v / ?M * 100) vs"
    using normalize_higher_nonneg [OF nn] pos by simp
  let ?ts = "map (\<lambda>v. round2 (0.25 * v)) (normalize_higher vs)"
  have "round2 (0.25 * (?M / ?M * 100)) = 25" using M by (simp add: round2_25)
  then have in25: "25 \<in> set ?ts"
    unfolding nh using mem by (force simp: image_iff)
  have le: "t \<le> 25" if "t \<in> set ?ts" for t
  proof -
    from that obtain v where v: "v \<in> set (normalize_higher vs)" "t = round2 (0.25 * v)"
      by auto
    from normalize_higher_le_100 [of vs] v(1) have "v \<le> 100" by (simp add: list_all_iff)
    then show ?thesis unfolding v(2) by (intro round2_le_25) simp
  qed
  show ?thesis
    by (rule Max_eqI) (use in25 le in auto)
qed

lemma zeros_three:
  assumes "list_all (\<lambda>v. v = 0) vs" "length vs = 3"
  shows "vs = [0, 0, 0 :: real]"
  using assms by (intro nth_equalityI) (auto simp: list_all_length less_Suc_eq numeral_3_eq_3)

text \<open>
  C5, as the code has it. \<open>generate_comparison_table\<close> fills only the ingestion column;
  the latency, storage, index and security columns stay 0 for all three databases, so every
  total is a quarter of the normalized ingestion rate rounded to two decimals, and is at most
  25. The summary report takes as winner the first row with the greatest total and prints
  that total, which is at most 25, followed by \<open>/100\<close>: with nonnegative ingestion rates and
  at least one positive, the line reads \<open>Total Score: 25.0/100\<close>; with no ingestion rate at
  all, PostgreSQL is the winner with \<open>Total Score: 0.0/100\<close>.
\<close>

theorem comparison_table_only_ingestion:
  "\<exists>r. generate_comparison_table ing = Inr r
     \<and> database r = [''PostgreSQL'', ''InfluxDB'', ''MongoDB'']
     \<and> ingestion_rate r = normalize_higher (ingestion_rate (initial_comparison ing))
     \<and> length (ingestion_rate r) = 3
     \<and> query_latency r = [0, 0, 0] \<and> storage_size r = [0, 0, 0]
     \<and> index_efficiency r = [0, 0, 0] \<and> security_score r = [0, 0, 0]
     \<and> total_score r = map (\<lambda>v. round2 (0.25 * v)) (ingestion_rate r)
     \<and> list_all (\<lambda>t. t \<le> 25) (total_score r)
     \<and> (\<exists>w. idxmax (total_score r) = Inr w \<and> w < 3
           \<and> list_all (\<lambda>t. t \<le> total_score r ! w) (total_score r)
           \<and> total_score r ! w \<le> 25
           \<and> winner_lines (Some r) =
               Inr [trophy @ '' Best Overall Performance: '' @ database r ! w @ [CHR 0x0A],
                    ''   Total Score: '' @ float_str (total_score r ! w) @ ''/100''
                      @ [CHR 0x0A, CHR 0x0A]]
           \<and> (list_all (\<lambda>v. 0 \<le> v) (ingestion_rate (initial_comparison ing))
                \<and> list_ex (\<lambda>v. 0 < v) (ingestion_rate (initial_comparison ing)) \<longrightarrow>
              total_score r ! w = 25
              \<and> total_score_line (float_str (total_score r ! w)) =
                  ''   Total Score: 25.0/100'' @ [CHR 0x0A, CHR 0x0A])
           \<and> (list_all (\<lambda>v. v = 0) (ingestion_rate (initial_comparison ing)) \<longrightarrow>
              total_score r = [0, 0, 0]
              \<and> winner_lines (Some r) =
                  Inr [trophy @ '' Best Overall Performance: PostgreSQL'' @ [CHR 0x0A],
                       ''   Total Score: 0.0/100'' @ [CHR 0x0A, CHR 0x0A]]))"
proof -
  let ?c = "initial_comparison ing"
  let ?ing = "normalize_higher (ingestion_rate ?c)"
  let ?c4 = "?c\<lparr>ingestion_rate := ?ing\<rparr>"
  let ?ts = "map (\<lambda>v. round2 (0.25 * v)) ?ing"
  let ?r = "?c4\<lparr>total_score := ?ts\<rparr>"
  have other: "database ?c = [''PostgreSQL'', ''InfluxDB'', ''MongoDB'']"
    "query_latency ?c = [0, 0, 0]" "storage_size ?c = [0, 0, 0]"
    "index_efficiency ?c = [0, 0, 0]" "security_score ?c = [0, 0, 0]"
    "total_score ?c = [0, 0, 0]"
    by (simp_all add: initial_comparison_def Let_def)
  have len: "length ?ing = 3" by (simp only: length_normalize length_initial_ingestion)
  have al: "columns_aligned ?c4"
    by (simp add: columns_aligned_def other length_initial_ingestion)
  have c4: "?c\<lparr>ingestion_rate := ?ing,
               index_efficiency := normalize_higher (index_efficiency ?c),
               query_latency := normalize_lower (query_latency ?c),
               storage_size := normalize_lower (storage_size ?c)\<rparr> = ?c4"
    by (simp add: other normalize_zeros)
  have w: "weighted ?c4 i = 0.25 * ?ing ! i" if "i < 3" for i
    using that by (auto simp: weighted_def other less_Suc_eq numeral_3_eq_3)
  have "map (\<lambda>i. round2 (weighted ?c4 i)) [0..<3] = map (\<lambda>i. round2 (0.25 * ?ing ! i)) [0..<3]"
  proof (rule map_cong [OF refl])
    fix i :: nat
    assume "i \<in> set [0..<3]"
    then have "i < 3" by simp
    then show "round2 (weighted ?c4 i) = round2 (0.25 * ?ing ! i)" by (simp only: w)
  qed
  also have "\<dots> = ?ts"
    by (rule map_three [OF len])
  finally have tot: "map (\<lambda>i. round2 (weighted ?c4 i)) [0..<3] = ?ts" .
  have d3: "length (database ?c4) = 3" by (simp add: other)
  have l3: "length (database ?c) = 3" by (simp add: other)
  have sr: "score_rows ?c4 [0..<3] = Inr ?r"
    using score_rows_aligned [OF al, of 0] unfolding d3 tot by simp
  have run: "generate_comparison_table ing = Inr ?r"
  proof -
    have "normalize_and_score ?c =
        score_rows (?c\<lparr>ingestion_rate := ?ing,
               index_efficiency := normalize_higher (index_efficiency ?c),
               query_latency := normalize_lower (query_latency ?c),
               storage_size := normalize_lower (storage_size ?c)\<rparr>) [0..<length (database ?c)]"
      by (simp add: normalize_and_score_def Let_def)
    also have "\<dots> = score_rows ?c4 [0..<3]"
      unfolding c4 l3 ..
    also have "\<dots> = Inr ?r" by (rule sr)
    finally show ?thesis by (simp add: generate_comparison_table_def)
  qed
  have bound: "list_all (\<lambda>t. t \<le> 25) ?ts"
  proof -
    have "round2 (0.25 * v) \<le> 25" if "v \<in> set ?ing" for v
    proof -
      from normalize_higher_le_100 [of "ingestion_rate ?c"] that have "v \<le> 100"
        by (simp add: list_all_iff)
      then show ?thesis by (intro round2_le_25) simp
    qed
    then show ?thesis by (simp add: list_all_iff)
  qed
  have tlen: "length ?ts = 3" using len by simp
  have "?ing \<noteq> []" using len by (metis list.size(3) zero_neq_numeral)
  then have tne: "?ts \<noteq> []" by simp
  from idxmax_first [OF tne] obtain w where
    w: "idxmax ?ts = Inr w" "w < length ?ts" "?ts ! w = Max (set ?ts)"
       "list_all (\<lambda>t. t \<le> ?ts ! w) ?ts"
    by blast
  have w3: "w < 3" using w(2) tlen by simp
  have top: "?ts ! w \<le> 25"
    using bound w(2) by (simp only: list_all_length)
  have tot_r: "total_score ?r = ?ts" and db_r: "database ?r = database ?c" by simp_all
  have lines: "winner_lines (Some ?r) =
      Inr [trophy @ '' Best Overall Performance: '' @ database ?r ! w @ [CHR 0x0A],
           ''   Total Score: '' @ float_str (total_score ?r ! w) @ ''/100'' @ [CHR 0x0A, CHR 0x0A]]"
    unfolding winner_lines_def option.case tot_r w(1)
    by (simp add: bind_err_def total_score_line_def)
  have best: "total_score ?r ! w = 25
      \<and> total_score_line (float_str (total_score ?r ! w)) =
          ''   Total Score: 25.0/100'' @ [CHR 0x0A, CHR 0x0A]"
    if a: "list_all (\<lambda>v. 0 \<le> v) (ingestion_rate ?c)
           \<and> list_ex (\<lambda>v. 0 < v) (ingestion_rate ?c)"
  proof -
    from a best_total_25 [of "ingestion_rate ?c"] have "Max (set ?ts) = 25" by blast
    with w(3) have t25: "total_score ?r ! w = 25" unfolding tot_r by simp
    show ?thesis unfolding t25 by (simp add: float_str_values total_score_line_def)
  qed
  have zero: "total_score ?r = [0, 0, 0]
      \<and> winner_lines (Some ?r) =
          Inr [trophy @ '' Best Overall Performance: PostgreSQL'' @ [CHR 0x0A],
               ''   Total Score: 0.0/100'' @ [CHR 0x0A, CHR 0x0A]]"
    if a: "list_all (\<lambda>v. v = 0) (ingestion_rate ?c)"
  proof -
    have z: "ingestion_rate ?c = [0, 0, 0]"
      by (rule zeros_three [OF a length_initial_ingestion])
    have ts: "?ts = [0, 0, 0]" unfolding z by (simp add: normalize_zeros round2_25)
    have i: "idxmax [0, 0, 0 :: real] = Inr 0" by (simp add: idxmax_def)
    show ?thesis
      unfolding winner_lines_def option.case tot_r ts
      by (simp add: i bind_err_def total_score_line_def float_str_values other)
  qed
  have inner: "\<exists>w. idxmax (total_score ?r) = Inr w \<and> w < 3
           \<and> list_all (\<lambda>t. t \<le> total_score ?r ! w) (total_score ?r)
           \<and> total_score ?r ! w \<le> 25
           \<and> winner_lines (Some ?r) =
               Inr [trophy @ '' Best Overall Performance: '' @ database ?r ! w @ [CHR 0x0A],
                    ''   Total Score: '' @ float_str (total_score ?r ! w) @ ''/100''
                      @ [CHR 0x0A, CHR 0x0A]]
           \<and> (list_all (\<lambda>v. 0 \<le> v) (ingestion_rate ?c)
                \<and> list_ex (\<lambda>v. 0 < v) (ingestion_rate ?c) \<longrightarrow>
              total_score ?r ! w = 25
              \<and> total_score_line (float_str (total_score ?r ! w)) =
                  ''   Total Score: 25.0/100'' @ [CHR 0x0A, CHR 0x0A])
           \<and> (list_all (\<lambda>v. v = 0) (ingestion_rate ?c) \<longrightarrow>
              total_score ?r = [0, 0, 0]
              \<and> winner_lines (Some ?r) =
                  Inr [trophy @ '' Best Overall Performance: PostgreSQL'' @ [CHR 0x0A],
                       ''   Total Score: 0.0/100'' @ [CHR 0x0A, CHR 0x0A]])"
  proof (intro exI [of _ w] conjI impI)
    show "idxmax (total_score ?r) = Inr w" unfolding tot_r by (rule w(1))
    show "w < 3" by (rule w3)
    show "list_all (\<lambda>t. t \<le> total_score ?r ! w) (total_score ?r)"
      unfolding tot_r by (rule w(4))
    show "total_score ?r ! w \<le> 25" unfolding tot_r by (rule top)
    show "winner_lines (Some ?r) =
               Inr [trophy @ '' Best Overall Performance: '' @ database ?r ! w @ [CHR 0x0A],
                    ''   Total Score: '' @ float_str (total_score ?r ! w) @ ''/100''
                      @ [CHR 0x0A, CHR 0x0A]]" by (rule lines)
  next
    assume a: "list_all (\<lambda>v. 0 \<le> v) (ingestion_rate ?c)
                \<and> list_ex (\<lambda>v. 0 < v) (ingestion_rate ?c)"
    from best [OF a] show "total_score ?r ! w = 25"
      "total_score_line (float_str (total_score ?r ! w)) =
                  ''   Total Score: 25.0/100'' @ [CHR 0x0A, CHR 0x0A]" by blast+
  next
    assume a: "list_all (\<lambda>v. v = 0) (ingestion_rate ?c)"
    from zero [OF a] show "total_score ?r = [0, 0, 0]"
      "winner_lines (Some ?r) =
                  Inr [trophy @ '' Best Overall Performance: PostgreSQL'' @ [CHR 0x0A],
                       ''   Total Score: 0.0/100'' @ [CHR 0x0A, CHR 0x0A]]" by blast+
  qed
  have props: "database ?r = [''PostgreSQL'', ''InfluxDB'', ''MongoDB'']"
    "ingestion_rate ?r = ?ing" "length (ingestion_rate ?r) = 3"
    "query_latency ?r = [0, 0, 0]" "storage_size ?r = [0, 0, 0]"
    "index_efficiency ?r = [0, 0, 0]" "security_score ?r = [0, 0, 0]"
    "total_score ?r = map (\<lambda>v. round2 (0.25 * v)) (ingestion_rate ?r)"
    "list_all (\<lambda>t. t \<le> 25) (total_score ?r)"
    using len other bound by simp_all
  show ?thesis
    by (rule exI [of _ ?r]) (use run props inner in \<open>intro conjI\<close>)
qed


theorem comparison_table_only_ingestion_witness:
  "\<exists>r. generate_comparison_table
          [(''postgresql'', [(''avg_insert_rate'', 3)]),
           (''influxdb'', [(''points_per_second'', 1)])] = Inr r
     \<and> security_score r = [0, 0, 0]
     \<and> list_all (\<lambda>t. t \<le> 25) (total_score r)
     \<and> (\<exists>w. idxmax (total_score r) = Inr w
          \<and> total_score r ! w = 25
          \<and> total_score_line (float_str (total_score r ! w)) =
               ''   Total Score: 25.0/100'' @ [CHR 0x0A, CHR 0x0A])"
proof -
  let ?ing = "[(''postgresql'', [(''avg_insert_rate'', 3 :: real)]),
               (''influxdb'', [(''points_per_second'', 1)])]"
  have h: "list_all (\<lambda>v. 0 \<le> v) (ingestion_rate (initial_comparison ?ing))
      \<and> list_ex (\<lambda>v. 0 < v) (ingestion_rate (initial_comparison ?ing))"
    by (simp add: initial_comparison_def get_or_zero_def)
  from comparison_table_only_ingestion [of ?ing] h show ?thesis
    apply (elim exE conjE)
    subgoal for r w
      apply (rule exI [of _ r])
      apply (intro conjI)
         apply assumption
        apply assumption
       apply assumption
      apply (rule exI [of _ w])
      apply blast
      done
    done
qed

text \<open>
  The total is rounded: ingestion rates 3 and 1 give the normalized rate 100/3 and the
  total 8.33, which is not a quarter of 100/3.
\<close>

theorem total_is_quarter_of_ingestion_counterexample:
  "generate_comparison_table
      [(''postgresql'', [(''avg_insert_rate'', 3)]), (''influxdb'', [(''points_per_second'', 1)])]
     = Inr \<lparr>database = [''PostgreSQL'', ''InfluxDB'', ''MongoDB''],
         ingestion_rate = [100, 100 / 3, 0], query_latency = [0, 0, 0],
         storage_size = [0, 0, 0], index_efficiency = [0, 0, 0],
         security_score = [0, 0, 0], total_score = [25, 833 / 100, 0]\<rparr>
   \<and> (833 / 100 :: real) \<noteq> 0.25 * (100 / 3)"
  by code_simp


section \<open>Properties of the data importer\<close>

lemma all_fail:
  assumes "\<forall>j < m - k. write (calls st + j) = RaisesInfluxDBError" "m = nat max_retries"
  shows "write_attempts write max_retries n [k..<m] st =
     Inr (st\<lparr>calls := calls st + (m - k),
            sleeps := sleeps st @ map (\<lambda>i. 2 ^ i) [k..<m - 1],
            failed_batches := failed_batches st + (if k < m then 1 else 0)\<rparr>)"
  using assms
proof (induction "m - k" arbitrary: k st)
  case 0
  then show ?case by simp
next
  case (Suc d)
  then have lt: "k < m" by simp
  have first: "write (calls st) = RaisesInfluxDBError"
    using Suc.prems(1) lt by (metis add.right_neutral zero_less_diff)
  have cons: "[k..<m] = k # [Suc k..<m]" using lt by (simp add: upt_conv_Cons)
  show ?case
  proof (cases "Suc k < m")
    case True
    then have small: "int k < max_retries - 1" using Suc.prems(2) by linarith
    let ?st = "st\<lparr>calls := calls st + 1, sleeps := sleeps st @ [2 ^ k]\<rparr>"
    have rest: "\<forall>j < m - Suc k. write (calls ?st + j) = RaisesInfluxDBError"
    proof (intro allI impI)
      fix j assume "j < m - Suc k"
      then have "Suc j < m - k" by simp
      with Suc.prems(1) have "write (calls st + Suc j) = RaisesInfluxDBError" by blast
      then show "write (calls ?st + j) = RaisesInfluxDBError" by simp
    qed
    have d: "d = m - Suc k" using Suc.hyps(2) by simp
    have up: "[k..<m - 1] = k # [Suc k..<m - 1]" using True by (simp add: upt_conv_Cons)
    have step: "write_attempts write max_retries n [k..<m] st =
        write_attempts write max_retries n [Suc k..<m] ?st"
      by (simp add: cons first small)
    have ih: "write_attempts write max_retries n [Suc k..<m] ?st =
        Inr (?st\<lparr>calls := calls ?st + (m - Suc k),
               sleeps := sleeps ?st @ map (\<lambda>i. 2 ^ i) [Suc k..<m - 1],
               failed_batches := failed_batches ?st + (if Suc k < m then 1 else 0)\<rparr>)"
      by (rule Suc.hyps(1) [OF d rest Suc.prems(2)])
    have eq: "?st\<lparr>calls := calls ?st + (m - Suc k),
               sleeps := sleeps ?st @ map (\<lambda>i. 2 ^ i) [Suc k..<m - 1],
               failed_batches := failed_batches ?st + (if Suc k < m then 1 else 0)\<rparr>
        = st\<lparr>calls := calls st + (m - k),
            sleeps := sleeps st @ map (\<lambda>i. 2 ^ i) [k..<m - 1],
            failed_batches := failed_batches st + (if k < m then 1 else 0)\<rparr>"
      unfolding up using True lt by (intro import_state.equality) simp_all
    show ?thesis unfolding step ih eq ..
  next
    case False
    then have last: "Suc k = m" using lt by simp
    then have big: "\<not> int k < max_retries - 1" using Suc.prems(2) by linarith
    show ?thesis
      using last by (simp add: cons first big)
  qed
qed

lemma succeeds_after:
  assumes "\<forall>i < j. write (calls st + i) = RaisesInfluxDBError"
    "write (calls st + j) = WriteOk" "k + j < m" "m = nat max_retries"
  shows "write_attempts write max_retries n [k..<m] st =
     Inr (st\<lparr>calls := calls st + j + 1,
            sleeps := sleeps st @ map (\<lambda>i. 2 ^ i) [k..<k + j],
            imported_points := imported_points st + n\<rparr>)"
  using assms
proof (induction j arbitrary: k st)
  case 0
  then have cons: "[k..<m] = k # [Suc k..<m]" by (simp add: upt_conv_Cons)
  show ?case unfolding cons using 0(2) by simp
next
  case (Suc j)
  then have lt: "k < m" by simp
  have cons: "[k..<m] = k # [Suc k..<m]" using lt by (simp add: upt_conv_Cons)
  have first: "write (calls st) = RaisesInfluxDBError"
    using Suc.prems(1) by (metis add.right_neutral zero_less_Suc)
  have small: "int k < max_retries - 1" using Suc.prems(3,4) by linarith
  let ?st = "st\<lparr>calls := calls st + 1, sleeps := sleeps st @ [2 ^ k]\<rparr>"
  have rest: "\<forall>i < j. write (calls ?st + i) = RaisesInfluxDBError"
  proof (intro allI impI)
    fix i assume "i < j"
    then have "Suc i < Suc j" by simp
    with Suc.prems(1) have "write (calls st + Suc i) = RaisesInfluxDBError" by blast
    then show "write (calls ?st + i) = RaisesInfluxDBError" by simp
  qed
  have ok: "write (calls ?st + j) = WriteOk" using Suc.prems(2) by simp
  have b: "Suc k + j < m" using Suc.prems(3) by simp
  have up: "[k..<k + Suc j] = k # [Suc k..<Suc k + j]" by (simp add: upt_conv_Cons)
  have step: "write_attempts write max_retries n [k..<m] st =
      write_attempts write max_retries n [Suc k..<m] ?st"
    by (simp add: cons first small)
  have ih: "write_attempts write max_retries n [Suc k..<m] ?st =
      Inr (?st\<lparr>calls := calls ?st + j + 1,
             sleeps := sleeps ?st @ map (\<lambda>i. 2 ^ i) [Suc k..<Suc k + j],
             imported_points := imported_points ?st + n\<rparr>)"
    by (rule Suc.IH [OF rest ok b Suc.prems(4)])
  have eq: "?st\<lparr>calls := calls ?st + j + 1,
             sleeps := sleeps ?st @ map (\<lambda>i. 2 ^ i) [Suc k..<Suc k + j],
             imported_points := imported_points ?st + n\<rparr>
      = st\<lparr>calls := calls st + Suc j + 1,
          sleeps := sleeps st @ map (\<lambda>i. 2 ^ i) [k..<k + Suc j],
          imported_points := imported_points st + n\<rparr>"
    unfolding up by (intro import_state.equality) simp_all
  show ?case unfolding step ih eq ..
qed

lemma first_success_Some:
  "first_success write c m = Some j \<Longrightarrow>
     j < m \<and> (\<forall>i < j. write (c + i) \<noteq> WriteOk) \<and> write (c + j) = WriteOk"
proof (induction m arbitrary: c j)
  case 0
  then show ?case by simp
next
  case (Suc m)
  show ?case
  proof (cases "write c = WriteOk")
    case True
    with Suc.prems show ?thesis by simp
  next
    case False
    with Suc.prems obtain j' where j': "first_success write (Suc c) m = Some j'" "j = Suc j'"
      by auto
    from Suc.IH [OF j'(1)] have ih: "j' < m" "\<forall>i < j'. write (Suc c + i) \<noteq> WriteOk"
      "write (Suc c + j') = WriteOk" by simp_all
    have "write (c + i) \<noteq> WriteOk" if "i < j" for i
    proof (cases i)
      case 0
      with False show ?thesis by simp
    next
      case (Suc i')
      with that j'(2) have "i' < j'" by simp
      with ih(2) Suc show ?thesis by simp
    qed
    with ih j'(2) show ?thesis by simp
  qed
qed

lemma first_success_None:
  "first_success write c m = None \<Longrightarrow> \<forall>i < m. write (c + i) \<noteq> WriteOk"
proof (induction m arbitrary: c)
  case 0
  then show ?case by simp
next
  case (Suc m)
  then have f: "write c \<noteq> WriteOk" and n: "first_success write (Suc c) m = None"
    by (auto split: if_splits)
  from Suc.IH [OF n] have ih: "\<forall>i < m. write (Suc c + i) \<noteq> WriteOk" .
  show ?case
  proof (intro allI impI)
    fix i assume "i < Suc m"
    then show "write (c + i) \<noteq> WriteOk"
      using f ih by (cases i) simp_all
  qed
qed

lemma write_batch_claimed:
  assumes H: "\<forall>k. write k = WriteOk \<or> write k = RaisesInfluxDBError"
  shows "bind_err (write_batch write max_retries batch st)
           (\<lambda>st'. Inr (st'\<lparr>sleeps := sleeps st' @ [1 / 10]\<rparr>))
         = Inr (claimed_batch write max_retries batch st)"
proof (cases "first_success write (calls st) (nat max_retries)")
  case None
  from first_success_None [OF None] H
  have a: "\<forall>i < nat max_retries - 0. write (calls st + i) = RaisesInfluxDBError"
    by (metis minus_nat.diff_0)
  have eq: "(st\<lparr>calls := calls st + (nat max_retries - 0),
            sleeps := sleeps st @ map (\<lambda>i. 2 ^ i) [0..<nat max_retries - 1],
            failed_batches := failed_batches st + (if 0 < nat max_retries then 1 else 0)\<rparr>)
          \<lparr>sleeps := sleeps st @ map (\<lambda>i. 2 ^ i) [0..<nat max_retries - 1] @ [1 / 10]\<rparr>
        = claimed_batch write max_retries batch st"
    unfolding claimed_batch_def None option.case
    by (intro import_state.equality) simp_all
  show ?thesis
    unfolding write_batch_def py_range_def all_fail [OF a refl] bind_err_def
    using eq by simp
next
  case (Some j)
  from first_success_Some [OF Some] H
  have a: "\<forall>i < j. write (calls st + i) = RaisesInfluxDBError"
    "write (calls st + j) = WriteOk" "0 + j < nat max_retries"
    by auto
  have eq: "(st\<lparr>calls := calls st + j + 1,
            sleeps := sleeps st @ map (\<lambda>i. 2 ^ i) [0..<0 + j],
            imported_points := imported_points st + length batch\<rparr>)
          \<lparr>sleeps := sleeps st @ map (\<lambda>i. 2 ^ i) [0..<0 + j] @ [1 / 10]\<rparr>
        = claimed_batch write max_retries batch st"
    unfolding claimed_batch_def Some option.case
    by (intro import_state.equality) simp_all
  show ?thesis
    unfolding write_batch_def py_range_def succeeds_after [OF a refl] bind_err_def
    using eq by simp
qed

lemma import_batches_claimed:
  assumes H: "\<forall>k. write k = WriteOk \<or> write k = RaisesInfluxDBError"
  shows "import_batches write max_retries batches st =
           Inr (claimed_import write max_retries batches st)"
proof (induction batches arbitrary: st)
  case Nil
  show ?case by simp
next
  case (Cons batch batches)
  from write_batch_claimed [OF H, of max_retries batch st]
  obtain st' where st': "write_batch write max_retries batch st = Inr st'"
    "st'\<lparr>sleeps := sleeps st' @ [1 / 10]\<rparr> = claimed_batch write max_retries batch st"
    by (cases "write_batch write max_retries batch st") (auto simp: bind_err_def)
  show ?case
    using Cons.IH [of "claimed_batch write max_retries batch st"]
    by (simp add: st' bind_err_def)
qed


lemma claimed_batch_counts:
  "(let s = claimed_batch write max_retries batch st
    in calls st \<le> calls s \<and> calls s \<le> calls st + nat max_retries
      \<and> (0 < max_retries \<longrightarrow> calls st + 1 \<le> calls s)
      \<and> (0 < max_retries \<longrightarrow>
           (imported_points s = imported_points st + length batch
              \<and> failed_batches s = failed_batches st)
           \<or> (imported_points s = imported_points st
              \<and> failed_batches s = failed_batches st + 1))
      \<and> imported_points st \<le> imported_points s
      \<and> imported_points s \<le> imported_points st + length batch
      \<and> failed_batches st \<le> failed_batches s
      \<and> failed_batches s \<le> failed_batches st + 1)"
proof (cases "first_success write (calls st) (nat max_retries)")
  case None
  then show ?thesis by (auto simp add: claimed_batch_def Let_def)
next
  case (Some j)
  from first_success_Some [OF Some] have "j < nat max_retries" by simp
  with Some show ?thesis by (auto simp add: claimed_batch_def Let_def)
qed

lemma claimed_import_counts:
  "(let s = claimed_import write max_retries batches st
    in calls st \<le> calls s \<and> calls s \<le> calls st + length batches * nat max_retries
      \<and> (0 < max_retries \<longrightarrow> calls st + length batches \<le> calls s)
      \<and> imported_points st \<le> imported_points s
      \<and> imported_points s \<le> imported_points st + length (concat batches)
      \<and> failed_batches st \<le> failed_batches s
      \<and> failed_batches s \<le> failed_batches st + length batches
      \<and> (0 < max_retries \<and> failed_batches s = failed_batches st \<longrightarrow>
           imported_points s = imported_points st + length (concat batches))
      \<and> (0 < max_retries \<and> list_all (\<lambda>b. b \<noteq> []) batches
           \<and> imported_points s = imported_points st + length (concat batches) \<longrightarrow>
           failed_batches s = failed_batches st))"
  unfolding Let_def
proof (induction batches arbitrary: st)
  case Nil
  show ?case by simp
next
  case (Cons b batches)
  let ?s1 = "claimed_batch write max_retries b st"
  let ?s = "claimed_import write max_retries batches ?s1"
  from claimed_batch_counts [of "write" max_retries b st]
  have one: "calls st \<le> calls ?s1" "calls ?s1 \<le> calls st + nat max_retries"
    "0 < max_retries \<longrightarrow> calls st + 1 \<le> calls ?s1"
    "0 < max_retries \<longrightarrow>
           (imported_points ?s1 = imported_points st + length b
              \<and> failed_batches ?s1 = failed_batches st)
           \<or> (imported_points ?s1 = imported_points st
              \<and> failed_batches ?s1 = failed_batches st + 1)"
    "imported_points st \<le> imported_points ?s1"
    "imported_points ?s1 \<le> imported_points st + length b"
    "failed_batches st \<le> failed_batches ?s1"
    "failed_batches ?s1 \<le> failed_batches st + 1"
    unfolding Let_def by blast+
  from Cons.IH [of ?s1]
  have ih: "calls ?s1 \<le> calls ?s" "calls ?s \<le> calls ?s1 + length batches * nat max_retries"
    "0 < max_retries \<longrightarrow> calls ?s1 + length batches \<le> calls ?s"
    "imported_points ?s1 \<le> imported_points ?s"
    "imported_points ?s \<le> imported_points ?s1 + length (concat batches)"
    "failed_batches ?s1 \<le> failed_batches ?s"
    "failed_batches ?s \<le> failed_batches ?s1 + length batches"
    "0 < max_retries \<and> failed_batches ?s = failed_batches ?s1 \<longrightarrow>
           imported_points ?s = imported_points ?s1 + length (concat batches)"
    "0 < max_retries \<and> list_all (\<lambda>b. b \<noteq> []) batches
           \<and> imported_points ?s = imported_points ?s1 + length (concat batches) \<longrightarrow>
           failed_batches ?s = failed_batches ?s1"
    by blast+
  have c1: "calls st \<le> calls ?s" using one(1) ih(1) by linarith
  have c2: "calls ?s \<le> calls st + length (b # batches) * nat max_retries"
    using one(2) ih(2) by (simp add: algebra_simps)
  have c3: "0 < max_retries \<longrightarrow> calls st + length (b # batches) \<le> calls ?s"
    using one(3) ih(3) by auto
  have i1: "imported_points st \<le> imported_points ?s" using one(5) ih(4) by linarith
  have i2: "imported_points ?s \<le> imported_points st + length (concat (b # batches))"
    using one(6) ih(5) by simp
  have f1: "failed_batches st \<le> failed_batches ?s" using one(7) ih(6) by linarith
  have f2: "failed_batches ?s \<le> failed_batches st + length (b # batches)"
    using one(8) ih(7) by simp
  have e1: "0 < max_retries \<and> failed_batches ?s = failed_batches st \<longrightarrow>
      imported_points ?s = imported_points st + length (concat (b # batches))"
  proof
    assume a: "0 < max_retries \<and> failed_batches ?s = failed_batches st"
    have f: "failed_batches ?s1 = failed_batches st"
      using a one(7) ih(6) by linarith
    with one(4) a have "imported_points ?s1 = imported_points st + length b" by auto
    moreover have "imported_points ?s = imported_points ?s1 + length (concat batches)"
      using ih(8) a f by simp
    ultimately show "imported_points ?s = imported_points st + length (concat (b # batches))"
      by simp
  qed
  have e2: "0 < max_retries \<and> list_all (\<lambda>b. b \<noteq> []) (b # batches)
         \<and> imported_points ?s = imported_points st + length (concat (b # batches)) \<longrightarrow>
      failed_batches ?s = failed_batches st"
  proof
    assume a: "0 < max_retries \<and> list_all (\<lambda>b. b \<noteq> []) (b # batches)
         \<and> imported_points ?s = imported_points st + length (concat (b # batches))"
    have ne: "0 < length b" using a by simp
    from a ih(5) one(6) have i: "imported_points ?s1 = imported_points st + length b"
      and r: "imported_points ?s = imported_points ?s1 + length (concat batches)"
      by simp_all
    from one(4) a i ne have f: "failed_batches ?s1 = failed_batches st" by auto
    have "failed_batches ?s = failed_batches ?s1" using ih(9) a r by simp
    with f show "failed_batches ?s = failed_batches st" by simp
  qed
  show ?case
    unfolding claimed_import.simps
    using c1 c2 c3 i1 i2 f1 f2 e1 e2 by (intro conjI)
qed

lemma concat_slices:
  "concat (map (\<lambda>k. take n (drop (k * n) xs)) [0..<m]) = take (m * n) xs"
proof (induction m)
  case 0
  show ?case by simp
next
  case (Suc m)
  have e: "Suc m * n = m * n + n" by simp
  have "concat (map (\<lambda>k. take n (drop (k * n) xs)) [0..<Suc m])
      = concat (map (\<lambda>k. take n (drop (k * n) xs)) [0..<m]) @ take n (drop (m * n) xs)"
    by simp
  also have "\<dots> = take (m * n) xs @ take n (drop (m * n) xs)"
    by (simp only: Suc)
  also have "\<dots> = take (m * n + n) xs" by (rule take_add [symmetric])
  finally show ?case unfolding e .
qed

lemma batches_of_slices:
  assumes "0 < batch_size"
  shows "\<exists>bs. batches_of points batch_size = Inr bs \<and> concat bs = points
     \<and> length bs = (length points + nat batch_size - 1) div nat batch_size
     \<and> list_all (\<lambda>b. b \<noteq> [] \<and> int (length b) \<le> batch_size) bs"
proof -
  let ?n = "nat batch_size"
  let ?m = "(length points + ?n - 1) div ?n"
  let ?bs = "map (\<lambda>k. take ?n (drop (k * ?n) points)) [0..<?m]"
  have n: "0 < ?n" using assms by simp
  have b: "batches_of points batch_size = Inr ?bs"
    using assms by (simp add: batches_of_def Let_def)
  have up: "length points \<le> ?m * ?n"
  proof -
    have "(length points + ?n - 1) mod ?n < ?n" using n by simp
    moreover have "?m * ?n + (length points + ?n - 1) mod ?n = length points + ?n - 1"
      by (simp add: mult.commute)
    ultimately show ?thesis by linarith
  qed
  have c: "concat ?bs = points" unfolding concat_slices using up by simp
  have lo: "k * ?n < length points" if "k < ?m" for k
  proof -
    have "Suc k \<le> ?m" using that by simp
    then have "Suc k * ?n \<le> ?m * ?n" by (rule mult_le_mono1)
    also have "\<dots> \<le> length points + ?n - 1" by (simp add: mult.commute)
    finally show ?thesis using n by simp
  qed
  have each: "list_all (\<lambda>b. b \<noteq> [] \<and> int (length b) \<le> batch_size) ?bs"
    unfolding list_all_iff
  proof
    fix b assume "b \<in> set ?bs"
    then obtain k where k: "k < ?m" "b = take ?n (drop (k * ?n) points)" by auto
    from lo [OF k(1)] n have "b \<noteq> []" unfolding k(2) by simp
    moreover have "int (length b) \<le> batch_size" unfolding k(2) using assms by simp
    ultimately show "b \<noteq> [] \<and> int (length b) \<le> batch_size" ..
  qed
  from b c each show ?thesis by (intro exI [of _ ?bs]) simp
qed

lemma claimed_all_ok:
  assumes "\<forall>k. write k = WriteOk" "0 < max_retries"
  shows "calls (claimed_import write max_retries batches st) = calls st + length batches
    \<and> imported_points (claimed_import write max_retries batches st)
        = imported_points st + length (concat batches)
    \<and> failed_batches (claimed_import write max_retries batches st) = failed_batches st"
proof (induction batches arbitrary: st)
  case Nil
  show ?case by simp
next
  case (Cons b batches)
  obtain m where m: "nat max_retries = Suc m" using assms(2) by (cases "nat max_retries") auto
  have f: "first_success write (calls st) (nat max_retries) = Some 0"
    unfolding m using assms(1) by simp
  show ?case
    using Cons.IH [of "claimed_batch write max_retries b st"]
    by (simp add: claimed_batch_def f)
qed

lemma first_success_never:
  "\<forall>k. write k = RaisesInfluxDBError \<Longrightarrow> first_success write c m = None"
  by (induction m arbitrary: c) simp_all

lemma claimed_all_fail:
  assumes "\<forall>k. write k = RaisesInfluxDBError" "0 < max_retries"
  shows "calls (claimed_import write max_retries batches st)
        = calls st + length batches * nat max_retries
    \<and> imported_points (claimed_import write max_retries batches st) = imported_points st
    \<and> failed_batches (claimed_import write max_retries batches st)
        = failed_batches st + length batches"
proof (induction batches arbitrary: st)
  case Nil
  show ?case by simp
next
  case (Cons b batches)
  show ?case
    using Cons.IH [of "claimed_batch write max_retries b st"] assms(2)
    by (simp add: claimed_batch_def first_success_never [OF assms(1)] algebra_simps)
qed

text \<open>
  C1. On every batch the importer calls \<open>write_api.write\<close> at most \<open>max_retries\<close> times.
  When the first \<open>j\<close> attempts raise \<open>InfluxDBError\<close> and attempt \<open>j\<close> succeeds, it has slept
  \<open>2 ^ k\<close> seconds after each failed attempt \<open>k\<close>, adds the length of the batch to
  \<open>imported_points\<close> and makes no further attempt. When attempts are made and every one of the
  \<open>max_retries\<close> attempts raises \<open>InfluxDBError\<close>, it has slept \<open>2 ^ k\<close> seconds after each
  attempt but the last and increments \<open>failed_batches\<close> by exactly 1. In both cases the outer
  loop goes on with the next batch: when the writes raise nothing but \<open>InfluxDBError\<close>, the
  batch loop ends in the state the specification describes batch by batch, and so does every
  import of a non-empty list of points with a positive batch size. Its batches are the
  consecutive non-empty slices of at most \<open>batch_size\<close> points, which together are the
  points; it makes
  at least one and at most \<open>max_retries\<close> calls per batch; a batch is counted either in
  \<open>imported_points\<close> or in \<open>failed_batches\<close>, so no batch failed exactly when all points
  were imported; when every write succeeds all points are imported with one call per batch,
  and when every write fails every batch is counted as failed after \<open>max_retries\<close> calls.
\<close>

theorem write_batch_retries:
  "(\<forall>st'. write_batch write max_retries batch st = Inr st' \<longrightarrow>
        calls st \<le> calls st' \<and> calls st' - calls st \<le> nat max_retries
        \<and> (0 \<le> max_retries \<longrightarrow> int (calls st' - calls st) \<le> max_retries))
     \<and> ((\<forall>i < j. write (calls st + i) = RaisesInfluxDBError)
          \<and> write (calls st + j) = WriteOk \<and> int j < max_retries \<longrightarrow>
        write_batch write max_retries batch st =
          Inr (st\<lparr>calls := calls st + j + 1,
                 sleeps := sleeps st @ map (\<lambda>k. 2 ^ k) [0..<j],
                 imported_points := imported_points st + length batch\<rparr>))
     \<and> (0 < max_retries
          \<and> (\<forall>i < nat max_retries. write (calls st + i) = RaisesInfluxDBError) \<longrightarrow>
        write_batch write max_retries batch st =
          Inr (st\<lparr>calls := calls st + nat max_retries,
                 sleeps := sleeps st @ map (\<lambda>k. 2 ^ k) [0..<nat max_retries - 1],
                 failed_batches := failed_batches st + 1\<rparr>))
     \<and> (\<forall>st'. write_batch write max_retries batch st = Inr st' \<longrightarrow>
        import_batches write max_retries (batch # batches) st =
          import_batches write max_retries batches (st'\<lparr>sleeps := sleeps st' @ [1 / 10]\<rparr>))
     \<and> ((\<forall>k. write k = WriteOk \<or> write k = RaisesInfluxDBError) \<longrightarrow>
        import_batches write max_retries batches st =
          Inr (claimed_import write max_retries batches st))
     \<and> ((\<forall>k. write k = WriteOk \<or> write k = RaisesInfluxDBError)
          \<and> points \<noteq> [] \<and> 0 < batch_size \<longrightarrow>
        (\<exists>bs fin.
           batches_of points batch_size = Inr bs \<and> concat bs = points
           \<and> length bs = (length points + nat batch_size - 1) div nat batch_size
           \<and> list_all (\<lambda>b. b \<noteq> [] \<and> int (length b) \<le> batch_size) bs
           \<and> import_data write points batch_size write_mode max_retries
               = Inr (Some (length points, fin))
           \<and> fin = (let s = claimed_import write max_retries bs initial_state
                    in if write_mode = ''async'' then s\<lparr>sleeps := sleeps s @ [5]\<rparr> else s)
           \<and> calls fin \<le> length bs * nat max_retries
           \<and> (0 < max_retries \<longrightarrow> length bs \<le> calls fin)
           \<and> imported_points fin \<le> length points
           \<and> failed_batches fin \<le> length bs
           \<and> (0 < max_retries \<longrightarrow>
                (failed_batches fin = 0) = (imported_points fin = length points))
           \<and> ((\<forall>k. write k = WriteOk) \<and> 0 < max_retries \<longrightarrow>
                calls fin = length bs \<and> imported_points fin = length points
                \<and> failed_batches fin = 0)
           \<and> ((\<forall>k. write k = RaisesInfluxDBError) \<and> 0 < max_retries \<longrightarrow>
                calls fin = length bs * nat max_retries \<and> imported_points fin = 0
                \<and> failed_batches fin = length bs)))"
proof -
  have per_batch: "(\<forall>st'. write_batch write max_retries batch st = Inr st' \<longrightarrow>
        calls st \<le> calls st' \<and> calls st' - calls st \<le> nat max_retries
        \<and> (0 \<le> max_retries \<longrightarrow> int (calls st' - calls st) \<le> max_retries))
     \<and> ((\<forall>i < j. write (calls st + i) = RaisesInfluxDBError)
          \<and> write (calls st + j) = WriteOk \<and> int j < max_retries \<longrightarrow>
        write_batch write max_retries batch st =
          Inr (st\<lparr>calls := calls st + j + 1,
                 sleeps := sleeps st @ map (\<lambda>k. 2 ^ k) [0..<j],
                 imported_points := imported_points st + length batch\<rparr>))
     \<and> (0 < max_retries
          \<and> (\<forall>i < nat max_retries. write (calls st + i) = RaisesInfluxDBError) \<longrightarrow>
        write_batch write max_retries batch st =
          Inr (st\<lparr>calls := calls st + nat max_retries,
                 sleeps := sleeps st @ map (\<lambda>k. 2 ^ k) [0..<nat max_retries - 1],
                 failed_batches := failed_batches st + 1\<rparr>))
     \<and> (\<forall>st'. write_batch write max_retries batch st = Inr st' \<longrightarrow>
        import_batches write max_retries (batch # batches) st =
          import_batches write max_retries batches (st'\<lparr>sleeps := sleeps st' @ [1 / 10]\<rparr>))"
  proof (intro conjI allI impI)
  fix st'
  assume run: "write_batch write max_retries batch st = Inr st'"
  have bound: "calls s \<le> calls s' \<and> calls s' - calls s \<le> length as"
    if "write_attempts write max_retries n as s = Inr s'" for n as s s'
    using that
  proof (induction as arbitrary: s)
    case Nil
    then show ?case by simp
  next
    case (Cons a as)
    show ?case
    proof (cases "write (calls s)")
      case WriteOk
      with Cons.prems show ?thesis by auto
    next
      case RaisesInfluxDBError
      with Cons.prems Cons.IH show ?thesis
        by (fastforce split: if_splits)
    next
      case (RaisesOther e)
      with Cons.prems show ?thesis by simp
    qed
  qed
  from bound [of "length batch" "py_range max_retries" st st'] run
  have b: "calls st \<le> calls st' \<and> calls st' - calls st \<le> nat max_retries"
    by (simp add: write_batch_def py_range_def)
  then show "calls st \<le> calls st'" "calls st' - calls st \<le> nat max_retries" by simp_all
  show "int (calls st' - calls st) \<le> max_retries" if "0 \<le> max_retries"
    using b that by linarith
next
  assume "(\<forall>i < j. write (calls st + i) = RaisesInfluxDBError)
          \<and> write (calls st + j) = WriteOk \<and> int j < max_retries"
  then have a: "\<forall>i < j. write (calls st + i) = RaisesInfluxDBError"
    "write (calls st + j) = WriteOk" "0 + j < nat max_retries" by auto
  from succeeds_after [OF a refl, of "length batch"]
  show "write_batch write max_retries batch st =
          Inr (st\<lparr>calls := calls st + j + 1,
                 sleeps := sleeps st @ map (\<lambda>k. 2 ^ k) [0..<j],
                 imported_points := imported_points st + length batch\<rparr>)"
    by (simp add: write_batch_def py_range_def)
next
  assume "0 < max_retries
          \<and> (\<forall>i < nat max_retries. write (calls st + i) = RaisesInfluxDBError)"
  then have pos: "0 < nat max_retries"
    and a: "\<forall>i < nat max_retries - 0. write (calls st + i) = RaisesInfluxDBError" by auto
  from all_fail [OF a refl, of "length batch"] pos
  show "write_batch write max_retries batch st =
          Inr (st\<lparr>calls := calls st + nat max_retries,
                 sleeps := sleeps st @ map (\<lambda>k. 2 ^ k) [0..<nat max_retries - 1],
                 failed_batches := failed_batches st + 1\<rparr>)"
    by (simp add: write_batch_def py_range_def)
next
  fix st'
  assume "write_batch write max_retries batch st = Inr st'"
  then show "import_batches write max_retries (batch # batches) st =
          import_batches write max_retries batches (st'\<lparr>sleeps := sleeps st' @ [1 / 10]\<rparr>)"
    by (simp add: bind_err_def)
qed
  have loop: "(\<forall>k. write k = WriteOk \<or> write k = RaisesInfluxDBError) \<longrightarrow>
        import_batches write max_retries batches st =
          Inr (claimed_import write max_retries batches st)"
    using import_batches_claimed [of "write" max_retries batches st] by blast
  have whole: "(\<forall>k. write k = WriteOk \<or> write k = RaisesInfluxDBError)
          \<and> points \<noteq> [] \<and> 0 < batch_size \<longrightarrow>
        (\<exists>bs fin.
           batches_of points batch_size = Inr bs \<and> concat bs = points
           \<and> length bs = (length points + nat batch_size - 1) div nat batch_size
           \<and> list_all (\<lambda>b. b \<noteq> [] \<and> int (length b) \<le> batch_size) bs
           \<and> import_data write points batch_size write_mode max_retries
               = Inr (Some (length points, fin))
           \<and> fin = (let s = claimed_import write max_retries bs initial_state
                    in if write_mode = ''async'' then s\<lparr>sleeps := sleeps s @ [5]\<rparr> else s)
           \<and> calls fin \<le> length bs * nat max_retries
           \<and> (0 < max_retries \<longrightarrow> length bs \<le> calls fin)
           \<and> imported_points fin \<le> length points
           \<and> failed_batches fin \<le> length bs
           \<and> (0 < max_retries \<longrightarrow>
                (failed_batches fin = 0) = (imported_points fin = length points))
           \<and> ((\<forall>k. write k = WriteOk) \<and> 0 < max_retries \<longrightarrow>
                calls fin = length bs \<and> imported_points fin = length points
                \<and> failed_batches fin = 0)
           \<and> ((\<forall>k. write k = RaisesInfluxDBError) \<and> 0 < max_retries \<longrightarrow>
                calls fin = length bs * nat max_retries \<and> imported_points fin = 0
                \<and> failed_batches fin = length bs))"
  proof
    assume a: "(\<forall>k. write k = WriteOk \<or> write k = RaisesInfluxDBError)
          \<and> points \<noteq> [] \<and> 0 < batch_size"
    then have H: "\<forall>k. write k = WriteOk \<or> write k = RaisesInfluxDBError"
      and ne: "points \<noteq> []" and pos: "0 < batch_size" by simp_all
    from batches_of_slices [OF pos, of points] obtain bs where
      bs: "batches_of points batch_size = Inr bs" "concat bs = points"
        "length bs = (length points + nat batch_size - 1) div nat batch_size"
        "list_all (\<lambda>b. b \<noteq> [] \<and> int (length b) \<le> batch_size) bs"
      by blast
    define s where "s = claimed_import write max_retries bs initial_state"
    define fin where
      "fin = (if write_mode = ''async'' then s\<lparr>sleeps := sleeps s @ [5]\<rparr> else s)"
    have cnt: "calls fin = calls s" "imported_points fin = imported_points s"
      "failed_batches fin = failed_batches s"
      by (simp_all add: fin_def)
    have run: "import_data write points batch_size write_mode max_retries
               = Inr (Some (length points, fin))"
      using ne import_batches_claimed [OF H, of max_retries bs initial_state]
      by (simp add: import_data_def bs(1) bind_err_def initial_state_def [symmetric]
            s_def [symmetric] fin_def Let_def)
    have fin: "fin = (let s = claimed_import write max_retries bs initial_state
                    in if write_mode = ''async'' then s\<lparr>sleeps := sleeps s @ [5]\<rparr> else s)"
      by (simp add: fin_def s_def Let_def)
    have ne_all: "list_all (\<lambda>b. b \<noteq> []) bs"
      using bs(4) by (simp add: list_all_iff)
    from claimed_import_counts [of "write" max_retries bs initial_state]
    have counts: "calls s \<le> length bs * nat max_retries"
      "0 < max_retries \<longrightarrow> length bs \<le> calls s"
      "imported_points s \<le> length points"
      "failed_batches s \<le> length bs"
      "0 < max_retries \<and> failed_batches s = 0 \<longrightarrow> imported_points s = length points"
      "0 < max_retries \<and> imported_points s = length points \<longrightarrow> failed_batches s = 0"
      unfolding Let_def s_def [symmetric] using ne_all
      by (simp_all add: initial_state_def bs(2))
    have iff: "0 < max_retries \<longrightarrow>
        (failed_batches fin = 0) = (imported_points fin = length points)"
      unfolding cnt using counts(5,6) by blast
    have ok: "(\<forall>k. write k = WriteOk) \<and> 0 < max_retries \<longrightarrow>
                calls fin = length bs \<and> imported_points fin = length points
                \<and> failed_batches fin = 0"
    proof
      assume b: "(\<forall>k. write k = WriteOk) \<and> 0 < max_retries"
      then have b1: "\<forall>k. write k = WriteOk" and b2: "0 < max_retries" by simp_all
      from claimed_all_ok [OF b1 b2, of bs initial_state]
      show "calls fin = length bs \<and> imported_points fin = length points
                \<and> failed_batches fin = 0"
        unfolding cnt s_def by (simp add: initial_state_def bs(2))
    qed
    have bad: "(\<forall>k. write k = RaisesInfluxDBError) \<and> 0 < max_retries \<longrightarrow>
                calls fin = length bs * nat max_retries \<and> imported_points fin = 0
                \<and> failed_batches fin = length bs"
    proof
      assume b: "(\<forall>k. write k = RaisesInfluxDBError) \<and> 0 < max_retries"
      then have b1: "\<forall>k. write k = RaisesInfluxDBError" and b2: "0 < max_retries"
        by simp_all
      from claimed_all_fail [OF b1 b2, of bs initial_state]
      show "calls fin = length bs * nat max_retries \<and> imported_points fin = 0
                \<and> failed_batches fin = length bs"
        unfolding cnt s_def by (simp add: initial_state_def)
    qed
    show "\<exists>bs fin.
           batches_of points batch_size = Inr bs \<and> concat bs = points
           \<and> length bs = (length points + nat batch_size - 1) div nat batch_size
           \<and> list_all (\<lambda>b. b \<noteq> [] \<and> int (length b) \<le> batch_size) bs
           \<and> import_data write points batch_size write_mode max_retries
               = Inr (Some (length points, fin))
           \<and> fin = (let s = claimed_import write max_retries bs initial_state
                    in if write_mode = ''async'' then s\<lparr>sleeps := sleeps s @ [5]\<rparr> else s)
           \<and> calls fin \<le> length bs * nat max_retries
           \<and> (0 < max_retries \<longrightarrow> length bs \<le> calls fin)
           \<and> imported_points fin \<le> length points
           \<and> failed_batches fin \<le> length bs
           \<and> (0 < max_retries \<longrightarrow>
                (failed_batches fin = 0) = (imported_points fin = length points))
           \<and> ((\<forall>k. write k = WriteOk) \<and> 0 < max_retries \<longrightarrow>
                calls fin = length bs \<and> imported_points fin = length points
                \<and> failed_batches fin = 0)
           \<and> ((\<forall>k. write k = RaisesInfluxDBError) \<and> 0 < max_retries \<longrightarrow>
                calls fin = length bs * nat max_retries \<and> imported_points fin = 0
                \<and> failed_batches fin = length bs)"
      using bs run fin counts(1,2,3,4) iff ok bad unfolding cnt [symmetric]
      by (intro exI [of _ bs] exI [of _ fin] conjI)
  qed
  from per_batch loop whole show ?thesis by (intro conjI) blast+
qed


theorem write_batch_retries_witness:
  "write_batch (\<lambda>k. if k < 2 then RaisesInfluxDBError else WriteOk) 3 [10, 20 :: nat]
       \<lparr>calls = 0, imported_points = 0, failed_batches = 0, sleeps = []\<rparr>
     = Inr \<lparr>calls = 3, imported_points = 2, failed_batches = 0, sleeps = [1, 2]\<rparr>
   \<and> write_batch (\<lambda>k. RaisesInfluxDBError) 3 [10, 20 :: nat]
       \<lparr>calls = 0, imported_points = 0, failed_batches = 0, sleeps = []\<rparr>
     = Inr \<lparr>calls = 3, imported_points = 0, failed_batches = 1, sleeps = [1, 2]\<rparr>
   \<and> import_data (\<lambda>k. if k < 2 then RaisesInfluxDBError else WriteOk)
        [10, 20, 30, 40, 50 :: nat] 2 ''sync'' 3
     = Inr (Some (5, \<lparr>calls = 5, imported_points = 5, failed_batches = 0,
                      sleeps = [1, 2, 1 / 10, 1 / 10, 1 / 10]\<rparr>))
   \<and> (\<exists>fin. import_data (\<lambda>k. RaisesInfluxDBError) [10, 20, 30, 40, 50 :: nat] 2 ''sync'' 3
          = Inr (Some (5, fin))
        \<and> calls fin = 9 \<and> imported_points fin = 0 \<and> failed_batches fin = 3)"
proof -
  let ?st = "\<lparr>calls = 0, imported_points = 0, failed_batches = 0, sleeps = []\<rparr>"
  let ?pts = "[10, 20, 30, 40, 50 :: nat]"
  let ?flaky = "\<lambda>k :: nat. if k < 2 then RaisesInfluxDBError else WriteOk"
  have two: "map (\<lambda>k. 2 ^ k) [0..<2] = [1, 2 :: real]"
    by (simp add: upt_rec)
  have "write_batch ?flaky 3 [10, 20 :: nat] ?st
     = Inr (?st\<lparr>calls := calls ?st + 2 + 1,
                 sleeps := sleeps ?st @ map (\<lambda>k. 2 ^ k) [0..<2],
                 imported_points := imported_points ?st + length [10, 20 :: nat]\<rparr>)"
    using write_batch_retries [of ?flaky 3 "[10, 20 :: nat]" ?st 2 "[]" ?pts 2 "''sync''"]
    by simp
  then have first: "write_batch ?flaky 3 [10, 20 :: nat] ?st
     = Inr \<lparr>calls = 3, imported_points = 2, failed_batches = 0, sleeps = [1, 2]\<rparr>"
    unfolding two by simp
  have "write_batch (\<lambda>k. RaisesInfluxDBError) 3 [10, 20 :: nat] ?st
     = Inr (?st\<lparr>calls := calls ?st + nat 3,
                 sleeps := sleeps ?st @ map (\<lambda>k. 2 ^ k) [0..<nat 3 - 1],
                 failed_batches := failed_batches ?st + 1\<rparr>)"
    using write_batch_retries
      [of "\<lambda>k. RaisesInfluxDBError" 3 "[10, 20 :: nat]" ?st 0 "[]" ?pts 2 "''sync''"]
    by simp
  moreover have "nat 3 - 1 = (2::nat)" by simp
  ultimately have second: "write_batch (\<lambda>k. RaisesInfluxDBError) 3 [10, 20 :: nat] ?st
     = Inr \<lparr>calls = 3, imported_points = 0, failed_batches = 1, sleeps = [1, 2]\<rparr>"
    unfolding two by (simp add: two)
  have slices: "batches_of ?pts 2 = Inr [[10, 20], [30, 40], [50]]"
    by (simp add: batches_of_def upt_rec)
  have claimed: "claimed_import ?flaky 3 [[10, 20], [30, 40], [50 :: nat]] initial_state
      = \<lparr>calls = 5, imported_points = 5, failed_batches = 0,
          sleeps = [1, 2, 1 / 10, 1 / 10, 1 / 10]\<rparr>"
    by code_simp
  from write_batch_retries [of ?flaky 3 "[10, 20 :: nat]" ?st 2 "[]" ?pts 2 "''sync''"]
  obtain bs fin where
    f: "batches_of ?pts 2 = Inr bs"
       "import_data ?flaky ?pts 2 ''sync'' 3 = Inr (Some (length ?pts, fin))"
       "fin = (let s = claimed_import ?flaky 3 bs initial_state
               in if ''sync'' = ''async'' then s\<lparr>sleeps := sleeps s @ [5]\<rparr> else s)"
    by auto
  from f(1) slices have bs: "bs = [[10, 20], [30, 40], [50]]" by simp
  have third: "import_data ?flaky ?pts 2 ''sync'' 3
     = Inr (Some (5, \<lparr>calls = 5, imported_points = 5, failed_batches = 0,
                      sleeps = [1, 2, 1 / 10, 1 / 10, 1 / 10]\<rparr>))"
    using f(2) unfolding f(3) bs claimed by simp
  note whole = write_batch_retries
      [of "\<lambda>k. RaisesInfluxDBError" 3 "[10, 20 :: nat]" ?st 0 "[]" ?pts 2 "''sync''",
        THEN conjunct2, THEN conjunct2, THEN conjunct2, THEN conjunct2, THEN conjunct2]
  have hyp: "(\<forall>k :: nat. RaisesInfluxDBError = WriteOk
                  \<or> RaisesInfluxDBError = RaisesInfluxDBError)
      \<and> ?pts \<noteq> [] \<and> (0 :: int) < 2" by simp
  from whole [THEN mp, OF hyp] obtain bs' :: "nat list list" and fin' where
    g: "length bs' = (length ?pts + nat 2 - 1) div nat 2"
       "import_data (\<lambda>k. RaisesInfluxDBError) ?pts 2 ''sync'' 3
          = Inr (Some (length ?pts, fin'))"
    and g3: "(\<forall>k :: nat. RaisesInfluxDBError = RaisesInfluxDBError) \<and> (0 :: int) < 3 \<longrightarrow>
       calls fin' = length bs' * nat 3 \<and> imported_points fin' = 0
          \<and> failed_batches fin' = length bs'"
    by (elim exE conjE) (rule that; assumption)
  from g3 have g4: "calls fin' = length bs' * nat 3 \<and> imported_points fin' = 0
          \<and> failed_batches fin' = length bs'" by simp
  have "length bs' = 3" using g(1) by simp
  with g g4 have fourth: "\<exists>fin. import_data (\<lambda>k. RaisesInfluxDBError) ?pts 2 ''sync'' 3
          = Inr (Some (5, fin))
        \<and> calls fin = 9 \<and> imported_points fin = 0 \<and> failed_batches fin = 3"
    by (intro exI [of _ fin']) simp
  from first second third fourth show ?thesis by (intro conjI)
qed

section \<open>Properties of the query performance tester\<close>

lemma test_runs_measured:
  "fst (fst (test_runs client query [k..<k + n] (ts, ns, es) c)) =
      ts @ map fst (successful (measured_results client query n c))
   \<and> fst (snd (fst (test_runs client query [k..<k + n] (ts, ns, es) c))) =
      ns @ map (fst \<circ> snd) (successful (measured_results client query n c))"
proof (induction n arbitrary: k ts ns es c)
  case 0
  show ?case by (simp add: successful_def)
next
  case (Suc n)
  have cons: "[k..<k + Suc n] = k # [Suc k..<Suc k + n]" by (simp add: upt_conv_Cons)
  obtain t m e c' where ex: "execute_query client query 3 c = ((t, m, e), c')"
    by (metis prod_cases3 surj_pair)
  show ?case
  proof (cases "truthy e")
    case True
    show ?thesis
      unfolding cons
      using Suc.IH [of "Suc k" ts ns "es @ [the e]" c'] True
      by (simp add: ex successful_def)
  next
    case False
    show ?thesis
      unfolding cons
      using Suc.IH [of "Suc k" "ts @ [t]" "ns @ [m]" es c'] False
      by (simp add: ex successful_def)
  qed
qed

lemma length_measured [simp]: "length (measured_results client query n c) = n"
  by (induction n arbitrary: c) (auto split: prod.splits)

lemma sum_list_bounds:
  fixes xs :: "real list"
  assumes "xs \<noteq> []"
  shows "Min (set xs) \<le> sum_list xs / real (length xs)"
    and "sum_list xs / real (length xs) \<le> Max (set xs)"
proof -
  have lo: "real (length ys) * a \<le> sum_list ys" if "\<forall>y\<in>set ys. a \<le> y" for ys :: "real list" and a
    using that by (induction ys) (auto simp: algebra_simps)
  have hi: "sum_list ys \<le> real (length ys) * b" if "\<forall>y\<in>set ys. y \<le> b" for ys :: "real list" and b
    using that by (induction ys) (auto simp: algebra_simps)
  have pos: "0 < real (length xs)" using assms by simp
  have "real (length xs) * Min (set xs) \<le> sum_list xs" by (rule lo) simp
  then show "Min (set xs) \<le> sum_list xs / real (length xs)"
    using pos by (simp add: pos_le_divide_eq mult.commute)
  have "sum_list xs \<le> real (length xs) * Max (set xs)" by (rule hi) simp
  then show "sum_list xs / real (length xs) \<le> Max (set xs)"
    using pos by (simp add: pos_divide_le_eq mult.commute)
qed

text \<open>
  The statistics of one query definition as the code computes them. Let the measured runs be
  the results of the \<open>iterations\<close> calls of \<open>execute_query\<close> made after the warmup runs, and
  the counted ones those whose error is false for \<open>if error\<close>, which are the runs without
  error and the runs that failed with an empty message. No result is recorded when none is
  counted. Otherwise the recorded times and counts are exactly those of the counted runs, in
  order; \<open>avg_time\<close> is their arithmetic mean, \<open>min_time\<close> and \<open>max_time\<close> their minimum and
  maximum, so \<open>min_time \<le> avg_time \<le> max_time\<close>; \<open>std_dev\<close> is 0 for a single counted run;
  \<open>success_rate\<close> is the number of counted runs over \<open>iterations\<close> and lies in [0, 1];
  \<open>throughput\<close> is the mean count over \<open>avg_time\<close> when \<open>avg_time\<close> is positive, else 0.
\<close>

lemma run_query_test_statistics:
  "(let runs = successful (measured_results client (qd_query qd) (nat iterations)
                 (warmup_runs client (qd_query qd) (py_range warmup_iterations) c))
    in case fst (run_query_test client qd iterations warmup_iterations c) of
         None \<Rightarrow> runs = []
       | Some r \<Rightarrow>
           runs \<noteq> []
           \<and> execution_times r = map fst runs
           \<and> result_counts r = map (fst \<circ> snd) runs
           \<and> avg_time r = sum_list (execution_times r) / real (length (execution_times r))
           \<and> min_time r = Min (set (execution_times r))
           \<and> max_time r = Max (set (execution_times r))
           \<and> min_time r \<le> avg_time r \<and> avg_time r \<le> max_time r
           \<and> (length (execution_times r) = 1 \<longrightarrow> std_dev r = 0)
           \<and> success_rate r = real (length (execution_times r)) / real_of_int iterations
           \<and> 0 \<le> success_rate r \<and> success_rate r \<le> 1
           \<and> throughput r =
               (if avg_time r > 0
                then (sum_list (map real (result_counts r)) / real (length (result_counts r)))
                       / avg_time r
                else 0))"
proof -
  define c1 where "c1 = warmup_runs client (qd_query qd) (py_range warmup_iterations) c"
  define runs where
    "runs = successful (measured_results client (qd_query qd) (nat iterations) c1)"
  obtain ts ns es c2 where
    tr: "test_runs client (qd_query qd) (py_range iterations) ([], [], []) c1 = ((ts, ns, es), c2)"
    by (metis prod_cases3 surj_pair)
  have rng: "py_range iterations = [0..<0 + nat iterations]" by (simp add: py_range_def)
  from test_runs_measured [of client "qd_query qd" 0 "nat iterations" "[]" "[]" "[]" c1]
  have ts: "ts = map fst runs" and ns: "ns = map (fst \<circ> snd) runs"
    unfolding rng [symmetric] tr runs_def by simp_all
  show ?thesis
  proof (cases "ts = []")
    case True
    then have "runs = []" using ts by simp
    moreover have "fst (run_query_test client qd iterations warmup_iterations c) = None"
      using True by (simp add: run_query_test_def c1_def [symmetric] tr Let_def)
    ultimately show ?thesis
      by (simp add: Let_def runs_def c1_def)
  next
    case False
    let ?r = "\<lparr>query_name = qd_name qd, query_type = qd_type qd,
                execution_times = ts, result_counts = ns,
                avg_time = mean ts, min_time = Min (set ts), max_time = Max (set ts),
                std_dev = (if length ts > 1 then stdev ts else 0),
                throughput = (if mean ts > 0 then mean (map real ns) / mean ts else 0),
                success_rate = real (length ts) / real_of_int iterations,
                query_text = qd_query qd\<rparr>"
    have res: "fst (run_query_test client qd iterations warmup_iterations c) = Some ?r"
      using False by (simp add: run_query_test_def c1_def [symmetric] tr Let_def)
    have ne: "runs \<noteq> []" using False ts by auto
    have "length runs \<le> nat iterations"
      unfolding runs_def successful_def
      using length_filter_le [of _ "measured_results client (qd_query qd) (nat iterations) c1"]
      by simp
    then have len: "length ts \<le> nat iterations" using ts by simp
    have "0 < length ts" using False by simp
    with len have pos: "0 < iterations" by linarith
    then have it: "real_of_int iterations = real (nat iterations)" by simp
    have rate: "0 \<le> real (length ts) / real_of_int iterations"
      "real (length ts) / real_of_int iterations \<le> 1"
      using len pos unfolding it by simp_all
    have bounds: "Min (set ts) \<le> mean ts" "mean ts \<le> Max (set ts)"
      unfolding mean_def using sum_list_bounds [OF False] by simp_all
    have props: "execution_times ?r = map fst runs"
      "result_counts ?r = map (fst \<circ> snd) runs"
      "avg_time ?r = sum_list (execution_times ?r) / real (length (execution_times ?r))"
      "min_time ?r = Min (set (execution_times ?r))"
      "max_time ?r = Max (set (execution_times ?r))"
      "min_time ?r \<le> avg_time ?r" "avg_time ?r \<le> max_time ?r"
      "length (execution_times ?r) = 1 \<longrightarrow> std_dev ?r = 0"
      "success_rate ?r = real (length (execution_times ?r)) / real_of_int iterations"
      "0 \<le> success_rate ?r" "success_rate ?r \<le> 1"
      "throughput ?r =
         (if avg_time ?r > 0
          then (sum_list (map real (result_counts ?r)) / real (length (result_counts ?r)))
                 / avg_time ?r
          else 0)"
      using ts ns bounds rate by (simp_all add: mean_def)
    show ?thesis
      unfolding Let_def c1_def [symmetric] runs_def [symmetric] res option.case
      using ne props by (intro conjI)
  qed
qed

lemma run_query_test_statistics_example:
  "\<exists>r. fst (run_query_test
          (\<lambda>q k. if k < 3 then QueryRaises ''timeout'' else QueryOk (if k = 3 then 2 else 4) 10)
          \<lparr>qd_name = ''simple_recent_data'', qd_type = ''simple_select'',
             qd_description = ''Select recent data with limit'', qd_query = ''from(bucket)''\<rparr>
          2 1 0) = Some r
     \<and> execution_times r = [2, 4] \<and> result_counts r = [10, 10]
     \<and> avg_time r = 3 \<and> min_time r = 2 \<and> max_time r = 4
     \<and> success_rate r = 1 \<and> throughput r = 10 / 3"
proof -
  let ?client = "\<lambda>(q::string) (k::nat).
      if k < 3 then QueryRaises ''timeout'' else QueryOk (if k = 3 then 2 else 4) 10"
  let ?qd = "\<lparr>qd_name = ''simple_recent_data'', qd_type = ''simple_select'',
             qd_description = ''Select recent data with limit'', qd_query = ''from(bucket)''\<rparr>"
  have w: "warmup_runs ?client (qd_query ?qd) (py_range 1) 0 = 3"
    by (simp add: py_range_def execute_query_def upt_rec)
  have m: "measured_results ?client (qd_query ?qd) (nat 2) 3 = [(2, 10, None), (4, 10, None)]"
    by (simp add: numeral_2_eq_2 execute_query_def py_range_def upt_rec)
  have runs: "successful (measured_results ?client (qd_query ?qd) (nat 2)
      (warmup_runs ?client (qd_query ?qd) (py_range 1) 0)) = [(2, 10, None), (4, 10, None)]"
    unfolding w m by (simp add: successful_def truthy_def)
  from run_query_test_statistics [of ?client ?qd 2 1 0]
  show ?thesis
    unfolding Let_def runs
    by (cases "fst (run_query_test ?client ?qd 2 1 0)") auto
qed


lemma empty_client_first: "execute_query empty_message_client q 3 2 = ((2, 10, None), 3)"
  by (simp add: execute_query_def py_range_def upt_rec empty_message_client_def)

lemma empty_client_later: "3 \<le> k \<Longrightarrow> execute_query empty_message_client q 3 k = ((0, 0, Some []), k + 3)"
  by (simp add: execute_query_def py_range_def upt_rec empty_message_client_def)

lemma empty_client_warmup: "warmup_runs empty_message_client q (py_range 2) 0 = 2"
  by (simp add: py_range_def execute_query_def upt_rec empty_message_client_def)

lemma measured_results_step:
  "0 < n \<Longrightarrow> measured_results client q n c =
     (case execute_query client q 3 c of (res, c') \<Rightarrow> res # measured_results client q (n - 1) c')"
  by (cases n) simp_all

lemma empty_client_measured: "measured_results empty_message_client q 5 2 =
   [(2, 10, None), (0, 0, Some []), (0, 0, Some []), (0, 0, Some []), (0, 0, Some [])]"
  by (simp add: measured_results_step empty_client_first empty_client_later)

lemma empty_client_runs: "test_runs empty_message_client q (py_range 5) ([], [], []) 2 =
   (([2, 0, 0, 0, 0], [10, 0, 0, 0, 0], []), 15)"
  by (simp add: py_range_def upt_rec empty_client_first empty_client_later truthy_def)

text \<open>
  C6, as the code has it. A measured run whose last attempt raised an exception with an empty
  message returns the error \<open>''\<close>, which \<open>if error\<close> takes for no error: the run is
  recorded with time 0 and 0 results. For the probe query with five iterations after two
  warmup runs, on a client whose first three calls succeed in 2 seconds with 10 records and
  whose later calls raise with an empty message, one measured run succeeds and four fail; yet
  \<open>run_performance_test\<close> records five times, a success rate of 1 instead of 1/5, the average
  2/5 instead of 2, the minimum 0 instead of 2 and a standard deviation of \<open>sqrt (4/5)\<close>
  instead of 0.
\<close>

theorem empty_message_failures_counted:
  "measured_results empty_message_client (qd_query probe_query) 5
      (warmup_runs empty_message_client (qd_query probe_query) (py_range 2) 0) =
     [(2, 10, None), (0, 0, Some []), (0, 0, Some []), (0, 0, Some []), (0, 0, Some [])]
   \<and> map execution_times (run_performance_test empty_message_client [probe_query] 5 2 0)
       = [[2, 0, 0, 0, 0]]
   \<and> map result_counts (run_performance_test empty_message_client [probe_query] 5 2 0)
       = [[10, 0, 0, 0, 0]]
   \<and> map avg_time (run_performance_test empty_message_client [probe_query] 5 2 0) = [2 / 5]
   \<and> map min_time (run_performance_test empty_message_client [probe_query] 5 2 0) = [0]
   \<and> map max_time (run_performance_test empty_message_client [probe_query] 5 2 0) = [2]
   \<and> map success_rate (run_performance_test empty_message_client [probe_query] 5 2 0) = [1]
   \<and> map throughput (run_performance_test empty_message_client [probe_query] 5 2 0) = [5]
   \<and> map std_dev (run_performance_test empty_message_client [probe_query] 5 2 0)
       = [sqrt (4 / 5)]"
  by (simp add: empty_client_warmup empty_client_measured empty_client_runs run_query_test_def
        mean_def stdev_def Let_def power2_eq_square)


section \<open>Properties of the fixed query set\<close>

lemma result_names_subseq:
  "subseq (map query_name (run_performance_test client qds iterations warmup c))
     (map qd_name qds)"
proof (induction qds arbitrary: c)
  case Nil
  show ?case by simp
next
  case (Cons qd qds)
  obtain res c' where r: "run_query_test client qd iterations warmup c = (res, c')"
    by (cases "run_query_test client qd iterations warmup c")
  show ?case
  proof (cases res)
    case None
    with r Cons.IH [of c'] show ?thesis by (auto intro: list_emb_Cons)
  next
    case (Some x)
    have "query_name x = qd_name qd"
      using r Some
      by (auto simp: run_query_test_def Let_def split: prod.splits if_splits)
    with r Some Cons.IH [of c'] show ?thesis by simp
  qed
qed

lemma execute_ok:
  assumes "\<forall>q k. \<exists>t n. client q k = QueryOk t n"
  shows "\<exists>t n. execute_query client q 3 c = ((t, n, None), c + 1)"
proof -
  from assms obtain t n where "client q c = QueryOk t n" by blast
  then show ?thesis by (simp add: execute_query_def py_range_def upt_rec)
qed

lemma test_runs_ok:
  assumes "\<forall>q k. \<exists>t n. client q k = QueryOk t n"
  shows "\<exists>ts' ns'. test_runs client q is (ts, ns, es) c = ((ts @ ts', ns @ ns', es), c + length is)
     \<and> length ts' = length is \<and> length ns' = length is"
proof (induction "is" arbitrary: ts ns c)
  case Nil
  show ?case by simp
next
  case (Cons i "is")
  from execute_ok [OF assms, of q c] obtain t n where
    e: "execute_query client q 3 c = ((t, n, None), c + 1)" by blast
  from Cons [of "ts @ [t]" "ns @ [n]" "c + 1"] obtain ts' ns' where
    r: "test_runs client q is (ts @ [t], ns @ [n], es) (c + 1)
        = (((ts @ [t]) @ ts', (ns @ [n]) @ ns', es), c + 1 + length is)"
      "length ts' = length is" "length ns' = length is"
    by blast
  have r': "test_runs client q is (ts @ [t], ns @ [n], es) (Suc c)
        = ((ts @ t # ts', ns @ n # ns', es), Suc (c + length is))"
    using r(1) by simp
  show ?case
    by (intro exI [of _ "t # ts'"] exI [of _ "n # ns'"]) (simp add: e truthy_def r' r(2,3))
qed

lemma run_query_test_ok:
  assumes "\<forall>q k. \<exists>t n. client q k = QueryOk t n" "0 < iterations"
  shows "\<exists>r c'. run_query_test client qd iterations warmup c = (Some r, c')
     \<and> query_name r = qd_name qd \<and> query_type r = qd_type qd \<and> query_text r = qd_query qd
     \<and> length (execution_times r) = nat iterations
     \<and> length (result_counts r) = nat iterations \<and> success_rate r = 1"
proof -
  let ?c1 = "warmup_runs client (qd_query qd) (py_range warmup) c"
  from test_runs_ok [OF assms(1), of "qd_query qd" "py_range iterations" "[]" "[]" "[]" ?c1]
  obtain ts ns where
    r: "test_runs client (qd_query qd) (py_range iterations) ([], [], []) ?c1
        = ((ts, ns, []), ?c1 + length (py_range iterations))"
      "length ts = nat iterations" "length ns = nat iterations"
    by (auto simp: py_range_def)
  have ne: "ts \<noteq> []" using r(2) assms(2) by auto
  have one: "real (nat iterations) / real_of_int iterations = 1" using assms(2) by simp
  show ?thesis
    using ne by (simp add: run_query_test_def Let_def r one)
qed

lemma all_tested:
  assumes "\<forall>q k. \<exists>t n. client q k = QueryOk t n" "0 < iterations"
  shows "map query_name (run_performance_test client qds iterations warmup c) = map qd_name qds
     \<and> map query_text (run_performance_test client qds iterations warmup c) = map qd_query qds
     \<and> list_all (\<lambda>r. length (execution_times r) = nat iterations \<and> success_rate r = 1)
          (run_performance_test client qds iterations warmup c)"
proof (induction qds arbitrary: c)
  case Nil
  show ?case by simp
next
  case (Cons qd qds)
  from run_query_test_ok [OF assms, of qd warmup c] obtain r c' where
    r: "run_query_test client qd iterations warmup c = (Some r, c')"
      "query_name r = qd_name qd" "query_text r = qd_query qd"
      "length (execution_times r) = nat iterations" "success_rate r = 1"
    by blast
  show ?case using Cons [of c'] by (simp add: r)
qed


lemma length_query_starts [simp]:
  "length (query_starts client qds iterations warmup c) = length qds"
  by (induction qds arbitrary: c) simp_all

lemma each_tested:
  "run_performance_test client qds iterations warmup c =
     concat (map (\<lambda>(qd, k). case fst (run_query_test client qd iterations warmup k) of
                               None \<Rightarrow> [] | Some r \<Rightarrow> [r])
               (zip qds (query_starts client qds iterations warmup c)))"
proof (induction qds arbitrary: c)
  case Nil
  show ?case by simp
next
  case (Cons qd qds)
  obtain res c' where r: "run_query_test client qd iterations warmup c = (res, c')"
    by (cases "run_query_test client qd iterations warmup c")
  show ?case using Cons [of c'] by (simp add: r)
qed

text \<open>
  C9. \<open>define_test_queries\<close> depends on the bucket name alone: testers with the same bucket
  get the same list. The list has exactly eight definitions with the fixed names, and
  \<open>run_comprehensive_test\<close> runs the performance test on exactly this list: each of the
  eight definitions is tested in turn with 5 iterations after 2 warmup runs, and the results
  are those of the definitions with a counted run, in this order. On a client that
  always answers, all eight are in the results, each with its query text, five measured times
  and a success rate of 1.
\<close>

theorem define_test_queries_fixed:
  "(tester_bucket t1 = tester_bucket t2 \<longrightarrow> define_test_queries t1 = define_test_queries t2)
   \<and> length (define_test_queries t) = 8
   \<and> map qd_name (define_test_queries t) =
        [''simple_recent_data'', ''time_range_aggregation'', ''group_by_patient'',
         ''complex_aggregation'', ''alert_detection'', ''join_simulation'',
         ''large_time_range'', ''high_cardinality'']
   \<and> run_comprehensive_test client t c =
        run_performance_test client (define_test_queries t) 5 2 c
   \<and> subseq (map query_name (run_comprehensive_test client t c))
        [''simple_recent_data'', ''time_range_aggregation'', ''group_by_patient'',
         ''complex_aggregation'', ''alert_detection'', ''join_simulation'',
         ''large_time_range'', ''high_cardinality'']
   \<and> length (query_starts client (define_test_queries t) 5 2 c) = 8
   \<and> run_comprehensive_test client t c =
        concat (map (\<lambda>(qd, k). case fst (run_query_test client qd 5 2 k) of
                                  None \<Rightarrow> [] | Some r \<Rightarrow> [r])
                  (zip (define_test_queries t)
                     (query_starts client (define_test_queries t) 5 2 c)))
   \<and> ((\<forall>q k. \<exists>tm n. client q k = QueryOk tm n) \<longrightarrow>
        map query_name (run_comprehensive_test client t c) =
          [''simple_recent_data'', ''time_range_aggregation'', ''group_by_patient'',
           ''complex_aggregation'', ''alert_detection'', ''join_simulation'',
           ''large_time_range'', ''high_cardinality'']
        \<and> map query_text (run_comprehensive_test client t c)
            = map qd_query (define_test_queries t)
        \<and> list_all (\<lambda>r. length (execution_times r) = 5 \<and> success_rate r = 1)
            (run_comprehensive_test client t c))"
proof -
  have names: "map qd_name (define_test_queries t) =
        [''simple_recent_data'', ''time_range_aggregation'', ''group_by_patient'',
         ''complex_aggregation'', ''alert_detection'', ''join_simulation'',
         ''large_time_range'', ''high_cardinality'']"
    by (simp add: define_test_queries_def)
  have len: "length (define_test_queries t) = 8"
    by (simp add: define_test_queries_def)
  have det: "tester_bucket t1 = tester_bucket t2 \<longrightarrow> define_test_queries t1 = define_test_queries t2"
    by (simp add: define_test_queries_def)
  have run: "run_comprehensive_test client t c =
        run_performance_test client (define_test_queries t) 5 2 c"
    by (simp add: run_comprehensive_test_def)
  have sub: "subseq (map query_name (run_comprehensive_test client t c))
        [''simple_recent_data'', ''time_range_aggregation'', ''group_by_patient'',
         ''complex_aggregation'', ''alert_detection'', ''join_simulation'',
         ''large_time_range'', ''high_cardinality'']"
    unfolding run names [symmetric] by (rule result_names_subseq)
  have starts: "length (query_starts client (define_test_queries t) 5 2 c) = 8"
    unfolding length_query_starts by (rule len)
  have each: "run_comprehensive_test client t c =
        concat (map (\<lambda>(qd, k). case fst (run_query_test client qd 5 2 k) of
                                  None \<Rightarrow> [] | Some r \<Rightarrow> [r])
                  (zip (define_test_queries t)
                     (query_starts client (define_test_queries t) 5 2 c)))"
    unfolding run by (rule each_tested)
  have ok: "(\<forall>q k. \<exists>tm n. client q k = QueryOk tm n) \<longrightarrow>
        map query_name (run_comprehensive_test client t c) =
          [''simple_recent_data'', ''time_range_aggregation'', ''group_by_patient'',
           ''complex_aggregation'', ''alert_detection'', ''join_simulation'',
           ''large_time_range'', ''high_cardinality'']
        \<and> map query_text (run_comprehensive_test client t c)
            = map qd_query (define_test_queries t)
        \<and> list_all (\<lambda>r. length (execution_times r) = 5 \<and> success_rate r = 1)
            (run_comprehensive_test client t c)"
  proof
    assume a: "\<forall>q k. \<exists>tm n. client q k = QueryOk tm n"
    have five: "nat 5 = 5" by simp
    from all_tested [OF a, of 5 "define_test_queries t" 2 c]
    show "map query_name (run_comprehensive_test client t c) =
          [''simple_recent_data'', ''time_range_aggregation'', ''group_by_patient'',
           ''complex_aggregation'', ''alert_detection'', ''join_simulation'',
           ''large_time_range'', ''high_cardinality'']
        \<and> map query_text (run_comprehensive_test client t c)
            = map qd_query (define_test_queries t)
        \<and> list_all (\<lambda>r. length (execution_times r) = 5 \<and> success_rate r = 1)
            (run_comprehensive_test client t c)"
      unfolding run names five by simp
  qed
  from det len names run sub starts each ok show ?thesis by (intro conjI)
qed

theorem define_test_queries_fixed_witness:
  "tester_bucket \<lparr>tester_url = ''http://localhost:8086'', tester_token = ''a'',
       tester_org = ''HealthIoT'', tester_bucket = ''health_iot_metrics'', tester_results = []\<rparr>
     = tester_bucket \<lparr>tester_url = ''http://db:8086'', tester_token = ''b'',
       tester_org = ''Lab'', tester_bucket = ''health_iot_metrics'', tester_results = []\<rparr>
   \<and> define_test_queries \<lparr>tester_url = ''http://localhost:8086'', tester_token = ''a'',
       tester_org = ''HealthIoT'', tester_bucket = ''health_iot_metrics'', tester_results = []\<rparr>
     = define_test_queries \<lparr>tester_url = ''http://db:8086'', tester_token = ''b'',
       tester_org = ''Lab'', tester_bucket = ''health_iot_metrics'', tester_results = []\<rparr>
   \<and> map query_name (run_comprehensive_test (\<lambda>q k. QueryOk 1 10)
         \<lparr>tester_url = ''http://localhost:8086'', tester_token = ''a'',
          tester_org = ''HealthIoT'', tester_bucket = ''health_iot_metrics'',
          tester_results = []\<rparr> 0) =
       [''simple_recent_data'', ''time_range_aggregation'', ''group_by_patient'',
        ''complex_aggregation'', ''alert_detection'', ''join_simulation'',
        ''large_time_range'', ''high_cardinality'']"
proof -
  let ?t1 = "\<lparr>tester_url = ''http://localhost:8086'', tester_token = ''a'',
       tester_org = ''HealthIoT'', tester_bucket = ''health_iot_metrics'', tester_results = []\<rparr>"
  let ?t2 = "\<lparr>tester_url = ''http://db:8086'', tester_token = ''b'',
       tester_org = ''Lab'', tester_bucket = ''health_iot_metrics'', tester_results = []\<rparr>"
  note inst = define_test_queries_fixed [of ?t1 ?t2 ?t1 "\<lambda>q k. QueryOk 1 10" 0]
  have same: "tester_bucket ?t1 = tester_bucket ?t2" by simp
  from inst [THEN conjunct1, THEN mp, OF same]
  have det: "define_test_queries ?t1 = define_test_queries ?t2" .
  have hyp: "\<forall>(q :: string) (k :: nat). \<exists>tm n. QueryOk 1 10 = QueryOk tm n" by blast
  from inst [THEN conjunct2, THEN conjunct2, THEN conjunct2, THEN conjunct2, THEN conjunct2,
    THEN conjunct2, THEN conjunct2, THEN mp, OF hyp, THEN conjunct1]
  have all: "map query_name (run_comprehensive_test (\<lambda>q k. QueryOk 1 10) ?t1 0) =
       [''simple_recent_data'', ''time_range_aggregation'', ''group_by_patient'',
        ''complex_aggregation'', ''alert_detection'', ''join_simulation'',
        ''large_time_range'', ''high_cardinality'']" .
  from same det all show ?thesis by (intro conjI)
qed


section \<open>Properties of the security token manager\<close>

lemma tokens_loop_prefix:
  "fst (tokens_loop org auths tokens) =
     tokens @ map (\<lambda>a. projr (token_info_of org a))
                (takeWhile (\<lambda>a. \<not> isl (token_info_of org a)) auths)"
proof (induction auths arbitrary: tokens)
  case Nil
  show ?case by simp
next
  case (Cons a auths)
  show ?case
  proof (cases "token_info_of org a")
    case (Inl e)
    then show ?thesis by simp
  next
    case (Inr t)
    then show ?thesis using Cons.IH [of "tokens @ [t]"] by simp
  qed
qed

lemma get_token_info_total: "\<exists>r. get_token_info api org tid = Inr r"
  by (simp add: get_token_info_def split: sum.splits)

lemma export_entries_undated:
  "list_ex (\<lambda>t. ti_created_at t = None \<or> ti_updated_at t = None) ts
     \<Longrightarrow> \<exists>e. export_entries ts = Inl e"
proof (induction ts)
  case Nil
  then show ?case by simp
next
  case (Cons t ts)
  show ?case
  proof (cases "ti_created_at t = None \<or> ti_updated_at t = None")
    case True
    then have "\<exists>e. export_entry t = Inl e"
      by (auto simp: export_entry_def split: option.splits)
    then show ?thesis by (auto simp: bind_err_def)
  next
    case False
    with Cons.prems have "list_ex (\<lambda>t. ti_created_at t = None \<or> ti_updated_at t = None) ts"
      by simp
    from Cons.IH [OF this] obtain e where "export_entries ts = Inl e" ..
    then show ?thesis by (auto simp: bind_err_def split: sum.splits)
  qed
qed

text \<open>
  C8, as the code has it. No token operation lets an exception leave it. \<open>list_tokens\<close>
  returns the empty list when the listing call raises; when reading a listed authorization
  raises, it returns the tokens built before that authorization. \<open>create_token\<close>,
  \<open>get_token_info\<close> and \<open>update_token\<close> return \<open>None\<close> when a call they make raises,
  \<open>get_token_info\<close> also when reading the authorization raises and \<open>create_token\<close> also
  when \<open>get_org_id\<close> raises inside it; \<open>delete_token\<close> returns \<open>False\<close>. \<open>export_tokens\<close>
  returns \<open>False\<close> when the file cannot be written or a listed token lacks a timestamp, but
  a failure of the listing call is absorbed by \<open>list_tokens\<close>, and the export of the empty
  list then returns \<open>True\<close> if the file is written. \<open>get_org_id\<close> and \<open>get_bucket_id\<close>
  raise again what the SDK raised, and raise when nothing is found.
\<close>

theorem token_operations_trap_exceptions:
  "(\<exists>ts. list_tokens api org uid = Inr ts)
   \<and> (\<forall>e. find_authorizations api org uid = Inl e \<longrightarrow> list_tokens api org uid = Inr [])
   \<and> (\<forall>auths. find_authorizations api org uid = Inr auths \<longrightarrow>
         list_tokens api org uid =
           Inr (map (\<lambda>a. projr (token_info_of org a))
                  (takeWhile (\<lambda>a. \<not> isl (token_info_of org a)) auths)))
   \<and> (\<exists>r. create_token api org descr perms uid = Inr r)
   \<and> (\<forall>e. to_permissions perms = Inl e \<longrightarrow> create_token api org descr perms uid = Inr None)
   \<and> (\<forall>e. get_org_id api org = Inl e \<longrightarrow> create_token api org descr perms uid = Inr None)
   \<and> ((\<forall>req. \<exists>e. create_authorization api req = Inl e) \<longrightarrow>
         create_token api org descr perms uid = Inr None)
   \<and> ((\<forall>i. \<exists>e. find_authorization_by_id api i = Inl e) \<longrightarrow>
         create_token api org descr perms uid = Inr None)
   \<and> ((\<forall>i. \<exists>e. bind_err (find_authorization_by_id api i) (token_info_of org) = Inl e) \<longrightarrow>
         create_token api org descr perms uid = Inr None)
   \<and> (\<exists>r. get_token_info api org tid = Inr r)
   \<and> (\<forall>e. find_authorization_by_id api tid = Inl e \<longrightarrow> get_token_info api org tid = Inr None)
   \<and> (\<forall>auth e. find_authorization_by_id api tid = Inr auth \<and> token_info_of org auth = Inl e
         \<longrightarrow> get_token_info api org tid = Inr None)
   \<and> (\<exists>r. update_token api org tid d s = Inr r)
   \<and> (\<forall>e. update_authorization api tid d s = Inl e \<longrightarrow> update_token api org tid d s = Inr None)
   \<and> (\<forall>e. find_authorization_by_id api tid = Inl e \<longrightarrow> update_token api org tid d s = Inr None)
   \<and> (\<exists>b. delete_token api tid = Inr b)
   \<and> (\<forall>e. delete_authorization api tid = Inl e \<longrightarrow> delete_token api tid = Inr False)
   \<and> (\<exists>b. export_tokens api org file = Inr b)
   \<and> ((\<forall>data. \<exists>e. write_json api file data = Inl e) \<longrightarrow>
         export_tokens api org file = Inr False)
   \<and> (\<forall>ts. list_tokens api org None = Inr ts
           \<and> list_ex (\<lambda>t. ti_created_at t = None \<or> ti_updated_at t = None) ts \<longrightarrow>
         export_tokens api org file = Inr False)
   \<and> (\<forall>e. find_authorizations api org None = Inl e \<longrightarrow>
         export_tokens api org file =
           (case write_json api file [] of Inr u \<Rightarrow> Inr True | Inl e' \<Rightarrow> Inr False))
   \<and> (\<forall>e. find_organizations api org = Inl e \<longrightarrow> get_org_id api org = Inl e)
   \<and> (find_organizations api org = Inr [] \<longrightarrow> (\<exists>e. get_org_id api org = Inl e))
   \<and> (\<forall>e. find_bucket_by_name api bucket = Inl e \<longrightarrow> get_bucket_id api bucket = Inl e)
   \<and> (find_bucket_by_name api bucket = Inr None \<longrightarrow> (\<exists>e. get_bucket_id api bucket = Inl e))"
proof (intro conjI allI impI)
  show "\<exists>ts. list_tokens api org uid = Inr ts"
    by (simp add: list_tokens_def split: sum.splits)
  show "list_tokens api org uid = Inr []" if "find_authorizations api org uid = Inl e" for e
    using that by (simp add: list_tokens_def)
  show "list_tokens api org uid =
           Inr (map (\<lambda>a. projr (token_info_of org a))
                  (takeWhile (\<lambda>a. \<not> isl (token_info_of org a)) auths))"
    if "find_authorizations api org uid = Inr auths" for auths
    using that tokens_loop_prefix [of org auths "[]"] by (simp add: list_tokens_def)
  show "\<exists>r. create_token api org descr perms uid = Inr r"
    by (simp add: create_token_def split: sum.splits)
  show "create_token api org descr perms uid = Inr None" if "to_permissions perms = Inl e" for e
    using that by (simp add: create_token_def bind_err_def)
  show "create_token api org descr perms uid = Inr None" if "get_org_id api org = Inl e" for e
    using that by (simp add: create_token_def bind_err_def split: sum.splits)
  show "create_token api org descr perms uid = Inr None"
    if a: "\<forall>req. \<exists>e. create_authorization api req = Inl e"
  proof -
    have "bind_err (create_authorization api req) f = Inl (projl (create_authorization api req))"
      for req and f :: "authorization \<Rightarrow> exn + TokenInfo option"
      using a [rule_format, of req] by (auto simp: bind_err_def)
    then show ?thesis
      by (simp add: create_token_def bind_err_def split: sum.splits)
  qed
  show "create_token api org descr perms uid = Inr None"
    if a: "\<forall>i. \<exists>e. find_authorization_by_id api i = Inl e"
  proof -
    have "get_token_info api org i = Inr None" for i
      using a [rule_format, of i] by (auto simp: get_token_info_def bind_err_def)
    then show ?thesis
      by (simp add: create_token_def bind_err_def split: sum.splits)
  qed
  show "create_token api org descr perms uid = Inr None"
    if a: "\<forall>i. \<exists>e. bind_err (find_authorization_by_id api i) (token_info_of org) = Inl e"
  proof -
    have "get_token_info api org i = Inr None" for i
      using a [rule_format, of i] by (auto simp: get_token_info_def)
    then show ?thesis
      by (simp add: create_token_def bind_err_def split: sum.splits)
  qed
  show "\<exists>r. get_token_info api org tid = Inr r" by (rule get_token_info_total)
  show "get_token_info api org tid = Inr None" if "find_authorization_by_id api tid = Inl e" for e
    using that by (simp add: get_token_info_def bind_err_def)
  show "get_token_info api org tid = Inr None"
    if "find_authorization_by_id api tid = Inr auth \<and> token_info_of org auth = Inl e" for auth e
    using that by (simp add: get_token_info_def bind_err_def)
  show "\<exists>r. update_token api org tid d s = Inr r"
    by (simp add: update_token_def split: sum.splits)
  show "update_token api org tid d s = Inr None" if "update_authorization api tid d s = Inl e" for e
    using that by (simp add: update_token_def bind_err_def)
  show "update_token api org tid d s = Inr None" if "find_authorization_by_id api tid = Inl e" for e
    using that by (simp add: update_token_def bind_err_def get_token_info_def split: sum.splits)
  show "\<exists>b. delete_token api tid = Inr b"
    by (cases "delete_authorization api tid") (auto simp add: delete_token_def)
  show "delete_token api tid = Inr False" if "delete_authorization api tid = Inl e" for e
    using that by (simp add: delete_token_def)
  show "\<exists>b. export_tokens api org file = Inr b"
    unfolding export_tokens_def
    by (cases "bind_err (list_tokens api org None) (\<lambda>tokens.
             bind_err (export_entries tokens) (\<lambda>export_data.
             bind_err (write_json api file export_data) (\<lambda>u. Inr True)))") auto
  show "export_tokens api org file = Inr False"
    if a: "\<forall>data. \<exists>e. write_json api file data = Inl e"
  proof -
    have "bind_err (write_json api file data) f = Inl (projl (write_json api file data))"
      for data and f :: "unit \<Rightarrow> exn + bool"
      using a [rule_format, of data] by (auto simp: bind_err_def)
    then show ?thesis
      by (simp add: export_tokens_def bind_err_def split: sum.splits)
  qed
  show "export_tokens api org file = Inr False"
    if a: "list_tokens api org None = Inr ts
           \<and> list_ex (\<lambda>t. ti_created_at t = None \<or> ti_updated_at t = None) ts" for ts
  proof -
    from a export_entries_undated [of ts] obtain e where "export_entries ts = Inl e" by blast
    with a show ?thesis by (simp add: export_tokens_def bind_err_def)
  qed
  show "export_tokens api org file =
      (case write_json api file [] of Inr u \<Rightarrow> Inr True | Inl e' \<Rightarrow> Inr False)"
    if "find_authorizations api org None = Inl e" for e
    using that by (simp add: export_tokens_def list_tokens_def bind_err_def split: sum.splits)
  show "get_org_id api org = Inl e" if "find_organizations api org = Inl e" for e
    using that by (simp add: get_org_id_def)
  show "\<exists>e. get_org_id api org = Inl e" if "find_organizations api org = Inr []"
    using that by (simp add: get_org_id_def)
  show "get_bucket_id api bucket = Inl e" if "find_bucket_by_name api bucket = Inl e" for e
    using that by (simp add: get_bucket_id_def)
  show "\<exists>e. get_bucket_id api bucket = Inl e" if "find_bucket_by_name api bucket = Inr None"
    using that by (simp add: get_bucket_id_def)
qed

lemma plain_token:
  "token_info_of ''HealthIoT'' plain_auth =
     Inr \<lparr>ti_id = ''0a1b'', ti_description = ''reader'', ti_permissions = [],
          ti_created_at = Some ''2024-01-01T00:00:00'',
          ti_updated_at = Some ''2024-01-02T00:00:00'', ti_status = ''active'',
          ti_user_name = None, ti_user_id = ''u1'', ti_org_name = Some ''HealthIoT'',
          ti_org_id = ''o1''\<rparr>"
  by (simp add: token_info_of_def plain_auth_def bind_err_def nonempty_def)

lemma odd_token: "isl (token_info_of ''HealthIoT'' odd_auth)"
  by (simp add: token_info_of_def odd_auth_def bind_err_def permission_text_def)

lemma undated_token:
  "token_info_of ''HealthIoT'' (plain_auth\<lparr>auth_created_at := None\<rparr>) =
     Inr \<lparr>ti_id = ''0a1b'', ti_description = ''reader'', ti_permissions = [],
          ti_created_at = None,
          ti_updated_at = Some ''2024-01-02T00:00:00'', ti_status = ''active'',
          ti_user_name = None, ti_user_id = ''u1'', ti_org_name = Some ''HealthIoT'',
          ti_org_id = ''o1''\<rparr>"
  by (simp add: token_info_of_def plain_auth_def bind_err_def nonempty_def)

theorem token_operations_trap_exceptions_witness:
  "list_tokens unreachable_api ''HealthIoT'' None = Inr []
   \<and> create_token unreachable_api ''HealthIoT'' ''reader''
        [[(''action'', ''read''), (''resource_type'', ''buckets'')]] None = Inr None
   \<and> get_token_info unreachable_api ''HealthIoT'' ''0a1b'' = Inr None
   \<and> update_token unreachable_api ''HealthIoT'' ''0a1b'' None (Some ''inactive'') = Inr None
   \<and> delete_token unreachable_api ''0a1b'' = Inr False
   \<and> get_org_id unreachable_api ''HealthIoT'' = Inl (Exn ''ApiException'' ''unreachable'')
   \<and> get_bucket_id unreachable_api ''health_iot_metrics''
        = Inl (Exn ''ApiException'' ''unreachable'')
   \<and> list_tokens listing_api ''HealthIoT'' None =
        Inr [\<lparr>ti_id = ''0a1b'', ti_description = ''reader'', ti_permissions = [],
          ti_created_at = Some ''2024-01-01T00:00:00'',
          ti_updated_at = Some ''2024-01-02T00:00:00'', ti_status = ''active'',
          ti_user_name = None, ti_user_id = ''u1'', ti_org_name = Some ''HealthIoT'',
          ti_org_id = ''o1''\<rparr>]
   \<and> get_token_info listing_api ''HealthIoT'' ''0c2d'' = Inr None
   \<and> export_tokens undated_api ''HealthIoT'' ''tokens.json'' = Inr False"
proof -
  have a: "list_tokens unreachable_api ''HealthIoT'' None = Inr []
   \<and> create_token unreachable_api ''HealthIoT'' ''reader''
        [[(''action'', ''read''), (''resource_type'', ''buckets'')]] None = Inr None
   \<and> get_token_info unreachable_api ''HealthIoT'' ''0a1b'' = Inr None
   \<and> update_token unreachable_api ''HealthIoT'' ''0a1b'' None (Some ''inactive'') = Inr None
   \<and> delete_token unreachable_api ''0a1b'' = Inr False
   \<and> get_org_id unreachable_api ''HealthIoT'' = Inl (Exn ''ApiException'' ''unreachable'')
   \<and> get_bucket_id unreachable_api ''health_iot_metrics''
        = Inl (Exn ''ApiException'' ''unreachable'')"
    using token_operations_trap_exceptions
      [of unreachable_api "''HealthIoT''" None "''reader''"
        "[[(''action'', ''read''), (''resource_type'', ''buckets'')]]" "''0a1b''" None
        "Some ''inactive''" "''tokens.json''" "''health_iot_metrics''"]
    by (simp add: unreachable_api_def)
  have b: "list_tokens listing_api ''HealthIoT'' None =
        Inr [\<lparr>ti_id = ''0a1b'', ti_description = ''reader'', ti_permissions = [],
          ti_created_at = Some ''2024-01-01T00:00:00'',
          ti_updated_at = Some ''2024-01-02T00:00:00'', ti_status = ''active'',
          ti_user_name = None, ti_user_id = ''u1'', ti_org_name = Some ''HealthIoT'',
          ti_org_id = ''o1''\<rparr>]
   \<and> get_token_info listing_api ''HealthIoT'' ''0c2d'' = Inr None"
    using token_operations_trap_exceptions
      [of listing_api "''HealthIoT''" None "''reader''"
        "[[(''action'', ''read''), (''resource_type'', ''buckets'')]]" "''0c2d''" None
        "Some ''inactive''" "''tokens.json''" "''health_iot_metrics''"]
      odd_token
    by (simp add: listing_api_def plain_token isl_def)
  have l: "list_tokens undated_api ''HealthIoT'' None =
        Inr [\<lparr>ti_id = ''0a1b'', ti_description = ''reader'', ti_permissions = [],
          ti_created_at = None,
          ti_updated_at = Some ''2024-01-02T00:00:00'', ti_status = ''active'',
          ti_user_name = None, ti_user_id = ''u1'', ti_org_name = Some ''HealthIoT'',
          ti_org_id = ''o1''\<rparr>]"
    by (simp add: list_tokens_def undated_api_def listing_api_def undated_token)
  have c: "export_tokens undated_api ''HealthIoT'' ''tokens.json'' = Inr False"
    using token_operations_trap_exceptions
      [of undated_api "''HealthIoT''" None "''reader''"
        "[[(''action'', ''read''), (''resource_type'', ''buckets'')]]" "''0c2d''" None
        "Some ''inactive''" "''tokens.json''" "''health_iot_metrics''"]
    unfolding l by simp
  from a b c show ?thesis by simp
qed

text \<open>
  When every SDK call fails and the file can be written, \<open>export_tokens\<close> returns \<open>True\<close>, not
  \<open>False\<close>. When the second listed authorization cannot be read, \<open>list_tokens\<close> returns the
  token of the first, not the empty list.
\<close>

theorem export_tokens_sentinel_counterexample:
  "find_authorizations unreachable_api ''HealthIoT'' None
       = Inl (Exn ''ApiException'' ''unreachable'')
   \<and> export_tokens unreachable_api ''HealthIoT'' ''tokens.json'' = Inr True
   \<and> find_authorizations listing_api ''HealthIoT'' None = Inr [plain_auth, odd_auth]
   \<and> isl (token_info_of ''HealthIoT'' odd_auth)
   \<and> list_tokens listing_api ''HealthIoT'' None =
        Inr [\<lparr>ti_id = ''0a1b'', ti_description = ''reader'', ti_permissions = [],
          ti_created_at = Some ''2024-01-01T00:00:00'',
          ti_updated_at = Some ''2024-01-02T00:00:00'', ti_status = ''active'',
          ti_user_name = None, ti_user_id = ''u1'', ti_org_name = Some ''HealthIoT'',
          ti_org_id = ''o1''\<rparr>]"
proof -
  have a: "find_authorizations unreachable_api ''HealthIoT'' None
       = Inl (Exn ''ApiException'' ''unreachable'')
     \<and> export_tokens unreachable_api ''HealthIoT'' ''tokens.json'' = Inr True"
    by (simp add: unreachable_api_def export_tokens_def list_tokens_def bind_err_def)
  have b: "find_authorizations listing_api ''HealthIoT'' None = Inr [plain_auth, odd_auth]"
    by (simp add: listing_api_def)
  obtain e where odd: "token_info_of ''HealthIoT'' odd_auth = Inl e"
    using odd_token by (auto simp: isl_def)
  have c: "list_tokens listing_api ''HealthIoT'' None =
        Inr [\<lparr>ti_id = ''0a1b'', ti_description = ''reader'', ti_permissions = [],
          ti_created_at = Some ''2024-01-01T00:00:00'',
          ti_updated_at = Some ''2024-01-02T00:00:00'', ti_status = ''active'',
          ti_user_name = None, ti_user_id = ''u1'', ti_org_name = Some ''HealthIoT'',
          ti_org_id = ''o1''\<rparr>]"
    unfolding list_tokens_def b by (simp add: plain_token odd)
  from a b c odd_token show ?thesis by (intro conjI) simp_all
qed



section \<open>Properties of the dataset generator\<close>

lemma patients_match: "list_all matches_patient_pattern patients"
  by code_simp

lemma choice_mem: "xs \<noteq> [] \<Longrightarrow> choice xs k \<in> set xs"
  by (simp add: choice_def)

lemma patients_nonempty: "patients \<noteq> []"
  by (simp add: patients_def)

lemma vital_ranges_table:
  "list_all (\<lambda>vt. case map_of vital_ranges vt of
       None \<Rightarrow> False
     | Some (lo, hi, typical) \<Rightarrow>
         0 \<le> lo \<and> lo \<le> hi \<and> lo = of_int \<lfloor>lo\<rfloor> \<and> hi = of_int \<lfloor>hi\<rfloor>) vital_types"
  by code_simp

lemma vital_lookup:
  assumes "vt \<in> set vital_types"
  shows "\<exists>lo hi typical. map_of vital_ranges vt = Some (lo, hi, typical)
           \<and> 0 \<le> lo \<and> lo \<le> hi \<and> lo = of_int \<lfloor>lo\<rfloor> \<and> hi = of_int \<lfloor>hi\<rfloor>"
  using vital_ranges_table assms
  by (auto simp: list_all_iff split: option.splits)

lemma round2_clamped:
  assumes "a \<le> b"
  shows "of_int a \<le> round2 (max (of_int a) (min (of_int b) x))
     \<and> round2 (max (of_int a) (min (of_int b) x)) \<le> of_int b"
proof -
  let ?v = "max (of_int a) (min (of_int b) x) :: real"
  have lo: "of_int (a * 100) / 100 \<le> ?v" by simp
  have hi: "?v \<le> of_int (b * 100) / 100" using assms by simp
  from round2_lower [OF lo] round2_upper [OF hi] show ?thesis by simp
qed

lemma generate_record_ok: "\<exists>r. generate_record i d = Inr r \<and> generated_row_ok i r"
proof -
  define vt where "vt = choice vital_types (pick_vital d)"
  have "vital_types \<noteq> []" by (simp add: vital_types_def)
  then have mem: "vt \<in> set vital_types" unfolding vt_def by (rule choice_mem)
  from vital_lookup [OF mem] obtain lo hi typical where
    look: "map_of vital_ranges vt = Some (lo, hi, typical)"
    and lo0: "0 \<le> lo" and lohi: "lo \<le> hi"
    and ints: "lo = of_int \<lfloor>lo\<rfloor>" "hi = of_int \<lfloor>hi\<rfloor>"
    by blast
  have fl: "\<lfloor>lo\<rfloor> \<le> \<lfloor>hi\<rfloor>" using lohi by (rule floor_mono)
  define hour where "hour = (2 * int i) div 3600 mod 24"
  define base where "base =
      (if vt = ''heart_rate_bpm'' then
         (if 2 \<le> hour \<and> hour \<le> 6
          then typical - 10 + uniform (- 5) 5 (uniform_random d)
          else if 8 \<le> hour \<and> hour \<le> 18
          then typical + 5 + uniform (- 10) 10 (uniform_random d)
          else typical + uniform (- 8) 8 (uniform_random d))
       else typical + uniform (- 0.2 * typical) (0.2 * typical) (uniform_random d))"
  define val where "val = max lo (min hi base)"
  define alert :: int where "alert =
      (if vt = ''heart_rate_bpm''
       then (if val > 120 \<or> val < 50 then 1 else 0)
       else if vt = ''spo2_percent''
       then (if val < 92 then 1 else 0)
       else if vt = ''blood_pressure_sys_mmhg''
       then (if val > 160 \<or> val < 90 then 1 else 0)
       else (if alert_random d < 0.05 then 1 else 0))"
  let ?r = "\<lparr>row_timestamp = Some (2 * int i),
             row_patient_id = Some (choice patients (pick_patient d)),
             row_device_id = choice devices (pick_device d),
             row_vital_type = Some vt,
             row_value = Some (round2 val),
             row_alert_flag = alert,
             row_department = choice departments (pick_department d),
             row_data_sensitivity = ''PHI'',
             row_ingestion_batch = ''BATCH_'' @ zfill 3 (str_nat (i div 1000 + 1))\<rparr>"
  have res: "generate_record i d = Inr ?r"
    unfolding generate_record_def Let_def vt_def [symmetric] look option.case prod.case
      hour_def [symmetric] base_def [symmetric] val_def [symmetric] alert_def [symmetric] ..
  have "of_int \<lfloor>lo\<rfloor> \<le> round2 (max (of_int \<lfloor>lo\<rfloor>) (min (of_int \<lfloor>hi\<rfloor>) base))
     \<and> round2 (max (of_int \<lfloor>lo\<rfloor>) (min (of_int \<lfloor>hi\<rfloor>) base)) \<le> of_int \<lfloor>hi\<rfloor>"
    by (rule round2_clamped [OF fl])
  then have rng: "lo \<le> round2 val" "round2 val \<le> hi"
    unfolding ints [symmetric] val_def by simp_all
  have nonneg: "0 \<le> round2 val" using rng(1) lo0 by linarith
  have pat: "choice patients (pick_patient d) \<in> set patients"
    by (rule choice_mem [OF patients_nonempty])
  have a01: "alert = 0 \<or> alert = 1" unfolding alert_def by simp
  have "generated_row_ok i ?r"
    using rng nonneg pat a01 by (simp add: generated_row_ok_def look)
  with res show ?thesis by blast
qed

lemma generate_records_ok:
  "\<exists>rs. generate_records draws is = Inr rs \<and> list_all2 generated_row_ok is rs"
proof (induction "is")
  case Nil
  show ?case by simp
next
  case (Cons i "is")
  from generate_record_ok [of i "draws i"] obtain r where
    r: "generate_record i (draws i) = Inr r" "generated_row_ok i r" by blast
  from Cons.IH obtain rs where
    rs: "generate_records draws is = Inr rs" "list_all2 generated_row_ok is rs" by blast
  show ?case using r rs by (simp add: bind_err_def)
qed

lemma ok_null_check: "list_all2 generated_row_ok is df \<Longrightarrow> null_check df"
  by (induction rule: list_all2_induct)
    (auto simp: null_check_def generated_row_ok_def split: option.splits)

lemma ok_timestamps:
  "list_all2 generated_row_ok is df \<Longrightarrow> map row_timestamp df = map (\<lambda>i. Some (2 * int i)) is"
  by (induction rule: list_all2_induct) (auto simp: generated_row_ok_def)

lemma ok_alert: "list_all2 generated_row_ok is df \<Longrightarrow> alert_binary_check df"
  by (induction rule: list_all2_induct) (auto simp: alert_binary_check_def generated_row_ok_def)

lemma ok_pattern: "list_all2 generated_row_ok is df \<Longrightarrow> patient_pattern_check df"
proof (induction rule: list_all2_induct)
  case Nil
  show ?case by (simp add: patient_pattern_check_def)
next
  case (Cons i "is" r df)
  from Cons.hyps(1) obtain p where p: "row_patient_id r = Some p" "p \<in> set patients"
    by (auto simp: generated_row_ok_def split: option.splits)
  from p(2) patients_match have "matches_patient_pattern p" by (simp add: list_all_iff)
  with p(1) Cons.IH show ?case by (simp add: patient_pattern_check_def)
qed

lemma ok_values:
  "list_all2 generated_row_ok is df \<Longrightarrow>
     \<forall>r\<in>set df. \<exists>vt lo hi typical v.
        row_vital_type r = Some vt \<and> map_of vital_ranges vt = Some (lo, hi, typical)
        \<and> row_value r = Some v \<and> lo \<le> v \<and> v \<le> hi \<and> 0 \<le> v"
proof (induction rule: list_all2_induct)
  case Nil
  show ?case by simp
next
  case (Cons i "is" r df)
  from Cons.hyps(1) have "\<exists>vt lo hi typical v.
        row_vital_type r = Some vt \<and> map_of vital_ranges vt = Some (lo, hi, typical)
        \<and> row_value r = Some v \<and> lo \<le> v \<and> v \<le> hi \<and> 0 \<le> v"
    by (auto simp: generated_row_ok_def split: option.splits prod.splits)
  with Cons.IH show ?case by simp
qed

lemma values_valid:
  assumes "\<forall>r\<in>set df. \<exists>v. row_value r = Some v \<and> 0 \<le> v"
  shows "value_ranges_valid df"
proof -
  have "\<not> Min (set (vital_data df vt)) < 0"
    if "vt \<in> set (map (the \<circ> row_vital_type) df)" for vt
  proof -
    from that obtain r where r: "r \<in> set df" "the (row_vital_type r) = vt" by auto
    then have ne: "vital_data df vt \<noteq> []"
      by (auto simp: vital_data_def filter_empty_conv)
    then have "Min (set (vital_data df vt)) \<in> set (vital_data df vt)"
      by (intro Min_in) simp_all
    then obtain r' where "r' \<in> set df" "Min (set (vital_data df vt)) = the (row_value r')"
      by (auto simp: vital_data_def)
    with assms show ?thesis by fastforce
  qed
  then show ?thesis
    by (simp add: value_ranges_valid_def list_all_iff)
qed

lemma sorted_doubles: "sorted (map (\<lambda>i. 2 * int i) [0..<n])"
  by (simp add: sorted_iff_nth_mono)

text \<open>
  C10. For every number of records \<open>n \<ge> 1\<close> and every sequence of random draws,
  \<open>generate_health_iot_data\<close> returns a frame of \<open>n\<close> rows that passes all five checks of
  \<open>validate_dataset\<close>: no nulls in the critical columns; the timestamps are \<open>base_time\<close> plus
  \<open>2 * i\<close> seconds, so they increase; every value lies in the declared range of its vital type,
  so none is negative; every alert flag is 0 or 1; every patient id matches the pattern. Hence
  \<open>validate_dataset\<close> returns \<open>True\<close> on it.
\<close>

theorem generated_dataset_validates:
  assumes n: "1 \<le> n"
  shows "\<exists>df. generate_health_iot_data n draws = Inr df
     \<and> length df = nat n
     \<and> null_check df
     \<and> map row_timestamp df = map (\<lambda>i. Some (2 * int i)) [0..<nat n]
     \<and> time_order_check df
     \<and> (\<forall>r\<in>set df. \<exists>vt lo hi typical v.
            row_vital_type r = Some vt \<and> map_of vital_ranges vt = Some (lo, hi, typical)
            \<and> row_value r = Some v \<and> lo \<le> v \<and> v \<le> hi \<and> 0 \<le> v)
     \<and> value_ranges_valid df
     \<and> alert_binary_check df
     \<and> patient_pattern_check df
     \<and> validate_dataset df"
proof -
  from generate_records_ok [of draws "[0..<nat n]"] obtain df where
    run: "generate_records draws [0..<nat n] = Inr df"
    and ok: "list_all2 generated_row_ok [0..<nat n] df" by blast
  have gen: "generate_health_iot_data n draws = Inr df"
    using n run by (simp add: generate_health_iot_data_def py_range_def)
  have len: "length df = nat n" using list_all2_lengthD [OF ok] by simp
  have nulls: "null_check df" by (rule ok_null_check [OF ok])
  have ts: "map row_timestamp df = map (\<lambda>i. Some (2 * int i)) [0..<nat n]"
    by (rule ok_timestamps [OF ok])
  have "map (the \<circ> row_timestamp) df = map the (map row_timestamp df)" by simp
  also have "\<dots> = map (\<lambda>i. 2 * int i) [0..<nat n]" unfolding ts by simp
  finally have order: "time_order_check df"
    unfolding time_order_check_def by (simp only: sorted_doubles)
  have vals: "\<forall>r\<in>set df. \<exists>vt lo hi typical v.
            row_vital_type r = Some vt \<and> map_of vital_ranges vt = Some (lo, hi, typical)
            \<and> row_value r = Some v \<and> lo \<le> v \<and> v \<le> hi \<and> 0 \<le> v"
    by (rule ok_values [OF ok])
  then have "\<forall>r\<in>set df. \<exists>v. row_value r = Some v \<and> 0 \<le> v" by blast
  then have valid: "value_ranges_valid df" by (rule values_valid)
  have alert: "alert_binary_check df" by (rule ok_alert [OF ok])
  have pattern: "patient_pattern_check df" by (rule ok_pattern [OF ok])
  have all: "validate_dataset df"
    using nulls order valid alert pattern by (simp add: validate_dataset_def)
  from gen len nulls ts order vals valid alert pattern all show ?thesis by blast
qed

theorem generated_dataset_validates_witness:
  "(1::int) \<le> 3
   \<and> (\<exists>df. generate_health_iot_data 3
          (\<lambda>i. \<lparr>pick_patient = 7 * i + 99, pick_device = i, pick_department = i,
                  pick_vital = 4 * i, uniform_random = 0.9, alert_random = 0.01\<rparr>) = Inr df
        \<and> length df = 3 \<and> validate_dataset df)"
proof -
  have h: "(1::int) \<le> 3" by simp
  from generated_dataset_validates [OF h, of
      "\<lambda>i. \<lparr>pick_patient = 7 * i + 99, pick_device = i, pick_department = i,
              pick_vital = 4 * i, uniform_random = 0.9, alert_random = 0.01\<rparr>"]
  obtain df where "generate_health_iot_data 3
          (\<lambda>i. \<lparr>pick_patient = 7 * i + 99, pick_device = i, pick_department = i,
                  pick_vital = 4 * i, uniform_random = 0.9, alert_random = 0.01\<rparr>) = Inr df"
    "length df = nat 3" "validate_dataset df" by blast
  then have "\<exists>df. generate_health_iot_data 3
          (\<lambda>i. \<lparr>pick_patient = 7 * i + 99, pick_device = i, pick_department = i,
                  pick_vital = 4 * i, uniform_random = 0.9, alert_random = 0.01\<rparr>) = Inr df
        \<and> length df = 3 \<and> validate_dataset df" by auto
  with h show ?thesis by (intro conjI)
qed

end
